theory Spec2Isabelle
  imports Main
begin

section \<open>The send operation of the EmailSend node (v2)\<close>

text \<open>
  A shallow embedding of \<^verbatim>\<open>packages/nodes-base/nodes/EmailSend/v2/send.operation.ts\<close>:
  the helper \<^verbatim>\<open>configureTransport\<close> and the operation \<^verbatim>\<open>execute\<close>.

  Conventions of the embedding.
  \<^item> An optional JavaScript property is an \<open>option\<close>: \<open>None\<close> is \<^verbatim>\<open>undefined\<close>.
  \<^item> A JavaScript number is an \<open>int\<close>: item indices, batch sizes and intervals are
    integers here; fractional numbers and \<^verbatim>\<open>NaN\<close> inputs are outside the model. The
    result of \<^verbatim>\<open>%\<close> is an \<open>int option\<close>, \<open>None\<close> being \<^verbatim>\<open>NaN\<close>.
  \<^item> A string is a \<open>string\<close> whose characters are the code units below 256; code units
    from 256 on are outside the model.
  \<^item> A thrown exception is the \<open>Inl\<close> of a sum type.
  \<^item> The host engine (\<^verbatim>\<open>this\<close>: parameter resolution, credentials, binary data, the
    failure policy) and the mail transport are not part of the file; they are the fields of
    the record \<open>exec_ctx\<close>, and every theorem holds for every such context.
\<close>

subsection \<open>Values\<close>

text \<open>An error object: its \<^verbatim>\<open>message\<close>, and the \<^verbatim>\<open>cert\<close> property that
  \<^verbatim>\<open>execute\<close> deletes before re-raising.\<close>

record err_obj =
  message :: string
  cert :: "string option"

text \<open>What \<^verbatim>\<open>execute\<close> can raise: the \<^verbatim>\<open>NodeApiError\<close> of line 319, and the
  \<^verbatim>\<open>TypeError\<close> of reading \<^verbatim>\<open>status\<close> of \<^verbatim>\<open>undefined\<close> at line 306.\<close>

datatype exec_error = NodeApiError err_obj | TypeError

text \<open>\<^verbatim>\<open>type EmailSendOptions\<close> (lines 194 to 201).\<close>

record batch_options =
  batchSize :: "int option"
  batchInterval :: "int option"

record batching_options =
  batch :: "batch_options option"

record EmailSendOptions =
  allowUnauthorizedCerts :: "bool option"
  attachments :: "string option"
  ccEmail :: "string option"
  bccEmail :: "string option"
  replyTo :: "string option"
  batching :: "batching_options option"

text \<open>The credentials object handed to \<^verbatim>\<open>configureTransport\<close>.\<close>

record credentials =
  cred_host :: string
  cred_port :: int
  cred_secure :: bool
  cred_user :: "string option"
  cred_password :: "string option"

text \<open>\<^verbatim>\<open>SMTPTransport.Options\<close>, as far as \<^verbatim>\<open>configureTransport\<close> fills it.\<close>

record auth_options =
  auth_user :: "string option"
  auth_pass :: "string option"

record tls_options =
  rejectUnauthorized :: bool

record connection_options =
  host :: string
  port :: int
  secure :: bool
  auth :: "auth_options option"
  tls :: "tls_options option"

text \<open>JavaScript truthiness of an optional string: defined and not empty.\<close>

definition truthy :: "string option \<Rightarrow> bool" where
  "truthy v = (case v of None \<Rightarrow> False | Some s \<Rightarrow> s \<noteq> [])"

subsection \<open>configureTransport (lines 203 to 224)\<close>

text \<open>
  The function builds \<^verbatim>\<open>connectionOptions\<close> in three steps and hands it to nodemailer's
  \<^verbatim>\<open>createTransport\<close>. The transport is identified with the options it is created from.
  The source assigns to the local \<^verbatim>\<open>connectionOptions\<close> only; accordingly the model is a
  function of its two arguments.
\<close>

definition configureTransport :: "credentials \<Rightarrow> EmailSendOptions \<Rightarrow> connection_options" where
  "configureTransport creds options =
    (let connectionOptions =
           \<lparr>host = cred_host creds, port = cred_port creds, secure = cred_secure creds,
            auth = None, tls = None\<rparr>;
         connectionOptions =
           (if truthy (cred_user creds) \<or> truthy (cred_password creds)
            then connectionOptions\<lparr>auth :=
                   Some \<lparr>auth_user = cred_user creds, auth_pass = cred_password creds\<rparr>\<rparr>
            else connectionOptions);
         connectionOptions =
           (if allowUnauthorizedCerts options = Some True
            then connectionOptions\<lparr>tls := Some \<lparr>rejectUnauthorized = False\<rparr>\<rparr>
            else connectionOptions)
     in connectionOptions)"

subsection \<open>JavaScript helpers\<close>

text \<open>\<^verbatim>\<open>a?.b\<close> is \<open>Option.bind\<close>; \<^verbatim>\<open>v ?? d\<close> is \<open>nullish v d\<close>.\<close>

definition nullish :: "'a option \<Rightarrow> 'a \<Rightarrow> 'a" where
  "nullish v d = (case v of None \<Rightarrow> d | Some x \<Rightarrow> x)"

text \<open>\<^verbatim>\<open>a % b\<close> on integers: \<^verbatim>\<open>NaN\<close> (here \<open>None\<close>) when \<open>b\<close> is zero, and otherwise
  the remainder of the truncating division, which has the sign of \<open>a\<close>.\<close>

definition js_rem :: "int \<Rightarrow> int \<Rightarrow> int option" where
  "js_rem a b = (if b = 0 then None else Some (sgn a * (\<bar>a\<bar> mod \<bar>b\<bar>)))"

text \<open>\<^verbatim>\<open>String.prototype.split\<close> with a one-character separator.\<close>

fun split_on :: "char \<Rightarrow> string \<Rightarrow> string list" where
  "split_on sep [] = [[]]"
| "split_on sep (c # cs) =
     (if c = sep then [] # split_on sep cs
      else (case split_on sep cs of [] \<Rightarrow> [[c]] | w # ws \<Rightarrow> (c # w) # ws))"

text \<open>\<^verbatim>\<open>String.prototype.trim\<close> strips white space and line terminators from both ends.
  Below 256 these are the code units 9 to 13 (tab, line feed, vertical tab, form feed,
  carriage return), 32 (space) and 160 (no-break space).\<close>

definition is_white :: "char \<Rightarrow> bool" where
  "is_white c = (c = CHR 0x09 \<or> c = CHR 0x0A \<or> c = CHR 0x0B \<or> c = CHR 0x0C \<or>
                 c = CHR 0x0D \<or> c = CHR 0x20 \<or> c = CHR 0xA0)"

definition trim :: "string \<Rightarrow> string" where
  "trim s = rev (dropWhile is_white (rev (dropWhile is_white s)))"

text \<open>Sequencing of statements that may throw: the first exception ends the block.\<close>

definition bind_err :: "'e + 'a \<Rightarrow> ('a \<Rightarrow> 'e + 'b) \<Rightarrow> 'e + 'b" where
  "bind_err r f = (case r of Inl e \<Rightarrow> Inl e | Inr x \<Rightarrow> f x)"

subsection \<open>Items, messages and the host\<close>

record binary_data =
  fileName :: "string option"
  mimeType :: string

text \<open>An input item (\<^verbatim>\<open>INodeExecutionData\<close>): its json and its optional binary
  properties, by name.\<close>

record input_item =
  item_json :: string
  binary :: "(string \<times> binary_data) list option"

record attachment =
  filename :: string
  content :: string
  cid :: string

text \<open>\<^verbatim>\<open>mailOptions\<close> (lines 247 to 254, and the fields added up to line 283).\<close>

record mail_options =
  mail_from :: string
  mail_to :: string
  mail_cc :: "string option"
  mail_bcc :: "string option"
  mail_subject :: string
  mail_replyTo :: "string option"
  mail_text :: "string option"
  mail_html :: "string option"
  mail_attachments :: "attachment list option"

text \<open>A settled promise of \<^verbatim>\<open>sendMail\<close>: \<^verbatim>\<open>{status: 'fulfilled', value}\<close> or
  \<^verbatim>\<open>{status: 'rejected', reason}\<close>.\<close>

datatype settled = Fulfilled string | Rejected err_obj

text \<open>An output record: \<^verbatim>\<open>json\<close> is the transport's response or \<^verbatim>\<open>{error: message}\<close>;
  \<^verbatim>\<open>pairedItem\<close> is \<^verbatim>\<open>{item: itemIndex}\<close>.\<close>

datatype json_payload = ResponseJson string | ErrorJson string

record outcome =
  json :: json_payload
  pairedItem :: nat

text \<open>
  The host, \<^verbatim>\<open>this\<close>. Every call that can throw returns a sum.
  \<^item> \<open>getNodeParameter name itemIndex fallback\<close> resolves a string parameter;
    \<open>getOptions itemIndex\<close> is \<^verbatim>\<open>getNodeParameter('options', itemIndex, {})\<close>.
  \<^item> \<open>sendMail k transporter mailOptions\<close> is how the promise of the \<open>k\<close>-th call of
    \<^verbatim>\<open>transporter.sendMail\<close> settles (calls are counted from zero).
\<close>

record exec_ctx =
  getNodeParameter :: "string \<Rightarrow> nat \<Rightarrow> string option \<Rightarrow> err_obj + string"
  getOptions :: "nat \<Rightarrow> err_obj + EmailSendOptions"
  getCredentials :: "err_obj + credentials"
  assertBinaryData :: "nat \<Rightarrow> string \<Rightarrow> err_obj + binary_data"
  getBinaryDataBuffer :: "nat \<Rightarrow> string \<Rightarrow> err_obj + string"
  continueOnFail :: bool
  sendMail :: "nat \<Rightarrow> connection_options \<Rightarrow> mail_options \<Rightarrow> settled"

text \<open>The observable effects of the submission loop, in order: a pacing sleep of so many
  milliseconds, and a call of \<^verbatim>\<open>sendMail\<close> made while \<^verbatim>\<open>itemIndex\<close> had the given value.\<close>

datatype event = Sleep int | SendMail nat connection_options mail_options

record submit_state =
  trace :: "event list"
  sendMailPromises :: "settled list"

subsection \<open>The body of the first loop (lines 235 to 296)\<close>

text \<open>Lines 272 to 279: one attachment for each property name, in order.\<close>

definition build_attachment :: "exec_ctx \<Rightarrow> nat \<Rightarrow> string \<Rightarrow> err_obj + attachment" where
  "build_attachment ctx itemIndex propertyName =
     bind_err (assertBinaryData ctx itemIndex propertyName) (\<lambda>binaryData.
     bind_err (getBinaryDataBuffer ctx itemIndex propertyName) (\<lambda>buffer.
       Inr \<lparr>filename = (if truthy (fileName binaryData)
                         then nullish (fileName binaryData) ''unknown'' else ''unknown''),
            content = buffer, cid = propertyName\<rparr>))"

fun build_attachments ::
  "exec_ctx \<Rightarrow> nat \<Rightarrow> string list \<Rightarrow> attachment list \<Rightarrow> err_obj + attachment list" where
  "build_attachments ctx itemIndex [] atts = Inr atts"
| "build_attachments ctx itemIndex (propertyName # rest) atts =
     bind_err (build_attachment ctx itemIndex propertyName) (\<lambda>a.
       build_attachments ctx itemIndex rest (atts @ [a]))"

text \<open>Lines 264 to 284.\<close>

definition add_attachments ::
  "exec_ctx \<Rightarrow> nat \<Rightarrow> input_item \<Rightarrow> EmailSendOptions \<Rightarrow> mail_options \<Rightarrow> err_obj + mail_options" where
  "add_attachments ctx itemIndex item options mailOptions =
     (if truthy (attachments options) \<and> binary item \<noteq> None then
        bind_err (build_attachments ctx itemIndex
                    (map trim (split_on CHR '','' (nullish (attachments options) []))) [])
          (\<lambda>atts. Inr (if atts \<noteq> [] then mailOptions\<lparr>mail_attachments := Some atts\<rparr>
                        else mailOptions))
      else Inr mailOptions)"

text \<open>Lines 235 to 284: the parameters, the transport and the message of one item.\<close>

definition prepare_message ::
  "exec_ctx \<Rightarrow> nat \<Rightarrow> input_item \<Rightarrow>
     err_obj + (connection_options \<times> mail_options \<times> EmailSendOptions)" where
  "prepare_message ctx itemIndex item =
     bind_err (getNodeParameter ctx ''fromEmail'' itemIndex None) (\<lambda>fromEmail.
     bind_err (getNodeParameter ctx ''toEmail'' itemIndex None) (\<lambda>toEmail.
     bind_err (getNodeParameter ctx ''subject'' itemIndex None) (\<lambda>subject.
     bind_err (getNodeParameter ctx ''emailFormat'' itemIndex None) (\<lambda>emailFormat.
     bind_err (getOptions ctx itemIndex) (\<lambda>options.
     bind_err (getCredentials ctx) (\<lambda>creds.
     bind_err (if emailFormat = ''text''
               then bind_err (getNodeParameter ctx ''text'' itemIndex (Some []))
                      (\<lambda>t. Inr (Some t))
               else Inr None) (\<lambda>text_field.
     bind_err (if emailFormat = ''html''
               then bind_err (getNodeParameter ctx ''html'' itemIndex (Some []))
                      (\<lambda>h. Inr (Some h))
               else Inr None) (\<lambda>html_field.
     bind_err (add_attachments ctx itemIndex item options
                 \<lparr>mail_from = fromEmail, mail_to = toEmail, mail_cc = ccEmail options,
                  mail_bcc = bccEmail options, mail_subject = subject,
                  mail_replyTo = replyTo options, mail_text = text_field,
                  mail_html = html_field, mail_attachments = None\<rparr>) (\<lambda>mailOptions.
       Inr (configureTransport creds options, mailOptions, options))))))))))"

text \<open>Lines 287 and 288.\<close>

definition effective_batchSize :: "EmailSendOptions \<Rightarrow> int" where
  "effective_batchSize options =
     nullish (Option.bind (Option.bind (batching options) batch) batchSize) 1"

definition effective_batchInterval :: "EmailSendOptions \<Rightarrow> int" where
  "effective_batchInterval options =
     nullish (Option.bind (Option.bind (batching options) batch) batchInterval) 1000"

text \<open>Lines 290 and 291: whether \<^verbatim>\<open>sleep\<close> is called before the item is submitted.\<close>

definition pacing_due :: "nat \<Rightarrow> EmailSendOptions \<Rightarrow> bool" where
  "pacing_due itemIndex options =
     (0 < itemIndex \<and> 0 \<le> effective_batchSize options \<and> 0 < effective_batchInterval options \<and>
      js_rem (int itemIndex) (effective_batchSize options) = Some 0)"

text \<open>The whole \<^verbatim>\<open>try\<close> block: an exception leaves it before anything is slept or sent.\<close>

definition try_body ::
  "exec_ctx \<Rightarrow> nat \<Rightarrow> input_item \<Rightarrow> submit_state \<Rightarrow> err_obj + submit_state" where
  "try_body ctx itemIndex item st =
     bind_err (prepare_message ctx itemIndex item) (\<lambda>(transporter, mailOptions, options).
       let st = (if pacing_due itemIndex options
                 then st\<lparr>trace := trace st @ [Sleep (effective_batchInterval options)]\<rparr>
                 else st)
       in Inr (st\<lparr>trace := trace st @ [SendMail itemIndex transporter mailOptions],
                  sendMailPromises := sendMailPromises st @
                    [sendMail ctx (length (sendMailPromises st)) transporter mailOptions]\<rparr>))"

subsection \<open>execute (lines 226 to 330)\<close>

text \<open>The first loop (lines 233 to 299). The \<^verbatim>\<open>catch\<close> block is empty: an item whose
  \<^verbatim>\<open>try\<close> block throws leaves the state as it was.\<close>

fun submit_loop :: "exec_ctx \<Rightarrow> input_item list \<Rightarrow> nat \<Rightarrow> submit_state \<Rightarrow> submit_state" where
  "submit_loop ctx [] itemIndex st = st"
| "submit_loop ctx (item # rest) itemIndex st =
     submit_loop ctx rest (Suc itemIndex)
       (case try_body ctx itemIndex item st of Inl error \<Rightarrow> st | Inr st' \<Rightarrow> st')"

definition submitted :: "exec_ctx \<Rightarrow> input_item list \<Rightarrow> submit_state" where
  "submitted ctx items = submit_loop ctx items 0 \<lparr>trace = [], sendMailPromises = []\<rparr>"

text \<open>
  \<^verbatim>\<open>Promise.allSettled\<close> (line 301). The sends complete in some order, \<open>arrival\<close>, a list of
  positions in \<^verbatim>\<open>sendMailPromises\<close>; each completion fills the slot of its promise. The
  result is ready once every slot is filled; \<open>None\<close> means that some send never settles, so
  that \<^verbatim>\<open>execute\<close> never returns.
\<close>

definition allSettled :: "nat list \<Rightarrow> settled list \<Rightarrow> settled list option" where
  "allSettled arrival promises =
     (let slots = fold (\<lambda>k slots. if k < length slots then slots[k := Some (promises ! k)]
                                    else slots)
                    arrival (replicate (length promises) None)
      in if list_all (\<lambda>s. s \<noteq> None) slots then Some (map (\<lambda>s. nullish s (Fulfilled [])) slots)
         else None)"

text \<open>
  The second loop (lines 304 to 327), as a function of the loop variable and of the two
  arrays it changes. It returns \<^verbatim>\<open>returnData\<close> as it stands when the loop is left, and
  the exception that left it, if any. \<^verbatim>\<open>shift\<close> on the empty array gives \<^verbatim>\<open>undefined\<close>,
  and line 306 then throws a \<^verbatim>\<open>TypeError\<close>.
\<close>

function output_loop ::
  "exec_ctx \<Rightarrow> nat \<Rightarrow> nat \<Rightarrow> settled list \<Rightarrow> outcome list \<Rightarrow> outcome list \<times> exec_error option" where
  "output_loop ctx n itemIndex promisesResponses returnData =
     (if itemIndex < n then
        (case promisesResponses of
           [] \<Rightarrow> (returnData, Some TypeError)
         | response # rest \<Rightarrow>
             (case response of
                Rejected reason \<Rightarrow>
                  if continueOnFail ctx
                  then output_loop ctx n (Suc itemIndex) rest
                         (returnData @ [\<lparr>json = ErrorJson (message reason), pairedItem = itemIndex\<rparr>])
                  else (returnData, Some (NodeApiError (reason\<lparr>cert := None\<rparr>)))
              | Fulfilled v \<Rightarrow>
                  output_loop ctx n (Suc itemIndex) rest
                    (returnData @ [\<lparr>json = ResponseJson v, pairedItem = itemIndex\<rparr>])))
      else (returnData, None))"
  by pat_completeness auto
termination
  by (relation "measure (\<lambda>(ctx, n, itemIndex, promisesResponses, returnData). n - itemIndex)") auto

declare output_loop.simps [simp del]

text \<open>\<^verbatim>\<open>prepareOutputData\<close> of the host puts the records on the node's single output.\<close>

definition prepareOutputData :: "outcome list \<Rightarrow> outcome list list" where
  "prepareOutputData outputData = [outputData]"

text \<open>\<^verbatim>\<open>execute\<close>: \<open>None\<close> when it never returns, \<open>Some (Inl e)\<close> when it throws \<open>e\<close>,
  \<open>Some (Inr out)\<close> when it returns \<open>out\<close>.\<close>

definition execute ::
  "exec_ctx \<Rightarrow> nat list \<Rightarrow> input_item list \<Rightarrow> (exec_error + outcome list list) option" where
  "execute ctx arrival items =
     (case allSettled arrival (sendMailPromises (submitted ctx items)) of
        None \<Rightarrow> None
      | Some promisesResponses \<Rightarrow>
          (case output_loop ctx (length items) 0 promisesResponses [] of
             (returnData, Some e) \<Rightarrow> Some (Inl e)
           | (returnData, None) \<Rightarrow> Some (Inr (prepareOutputData returnData))))"

subsection \<open>Reading the trace and the results\<close>

text \<open>The pacing sleep that immediately precedes the call of \<^verbatim>\<open>sendMail\<close> for item \<open>i\<close>,
  if there is one.\<close>

fun delay_before :: "nat \<Rightarrow> event list \<Rightarrow> int option" where
  "delay_before i (Sleep ms # SendMail j t m # es) =
     (if j = i then Some ms else delay_before i es)"
| "delay_before i (e # es) = delay_before i es"
| "delay_before i [] = None"

text \<open>The calls of \<^verbatim>\<open>sendMail\<close> in a trace, in order, each with the item index it was made
  for.\<close>

fun sends :: "event list \<Rightarrow> (nat \<times> connection_options \<times> mail_options) list" where
  "sends [] = []"
| "sends (Sleep ms # es) = sends es"
| "sends (SendMail i t m # es) = (i, t, m) # sends es"

text \<open>The reason of the first rejected result of a list, in the order of the list.\<close>

fun first_rejected :: "settled list \<Rightarrow> err_obj option" where
  "first_rejected [] = None"
| "first_rejected (Fulfilled v # rs) = first_rejected rs"
| "first_rejected (Rejected reason # rs) = Some reason"

text \<open>The output record that lines 308 to 315 and 321 to 326 build from a settled result
  while the loop variable is \<open>itemIndex\<close>.\<close>

definition outcome_of :: "nat \<Rightarrow> settled \<Rightarrow> outcome" where
  "outcome_of itemIndex response =
     (case response of
        Fulfilled v \<Rightarrow> \<lparr>json = ResponseJson v, pairedItem = itemIndex\<rparr>
      | Rejected reason \<Rightarrow> \<lparr>json = ErrorJson (message reason), pairedItem = itemIndex\<rparr>)"

text \<open>What one item adds to the trace.\<close>

definition item_events :: "exec_ctx \<Rightarrow> nat \<Rightarrow> input_item \<Rightarrow> event list" where
  "item_events ctx itemIndex item =
     (case prepare_message ctx itemIndex item of
        Inl e \<Rightarrow> []
      | Inr (transporter, mailOptions, options) \<Rightarrow>
          (if pacing_due itemIndex options then [Sleep (effective_batchInterval options)] else [])
          @ [SendMail itemIndex transporter mailOptions])"

text \<open>Whether the \<^verbatim>\<open>try\<close> block of item \<open>i\<close> runs to its end.\<close>

definition item_ok :: "exec_ctx \<Rightarrow> input_item list \<Rightarrow> nat \<Rightarrow> bool" where
  "item_ok ctx items i = (case prepare_message ctx i (items ! i) of Inl e \<Rightarrow> False | Inr r \<Rightarrow> True)"

text \<open>The pacing sleep that item \<open>i\<close> adds, if any.\<close>

definition item_delay :: "exec_ctx \<Rightarrow> nat \<Rightarrow> input_item \<Rightarrow> int option" where
  "item_delay ctx itemIndex item =
     (case prepare_message ctx itemIndex item of
        Inl e \<Rightarrow> None
      | Inr (transporter, mailOptions, options) \<Rightarrow>
          if pacing_due itemIndex options then Some (effective_batchInterval options) else None)"

text \<open>The promises that belong to a trace: the \<open>k\<close>-th call of \<^verbatim>\<open>sendMail\<close> in it gives
  the \<open>k\<close>-th promise.\<close>

definition promises_of :: "exec_ctx \<Rightarrow> event list \<Rightarrow> settled list" where
  "promises_of ctx tr =
     map (\<lambda>(k, (i, transporter, mailOptions)). sendMail ctx k transporter mailOptions)
       (enumerate 0 (sends tr))"

text \<open>One completion, as \<open>allSettled\<close> folds it into the slots.\<close>

definition fill :: "settled list \<Rightarrow> nat \<Rightarrow> settled option list \<Rightarrow> settled option list" where
  "fill promises k slots = (if k < length slots then slots[k := Some (promises ! k)] else slots)"

text \<open>The records that the second loop builds from the results \<open>rs\<close> when it starts at
  index \<open>i\<close>: the \<open>k\<close>-th of them is paired with \<open>i + k\<close>.\<close>

definition paired :: "nat \<Rightarrow> settled list \<Rightarrow> outcome list" where
  "paired i rs = map (\<lambda>(j, r). outcome_of j r) (zip [i..<i + length rs] rs)"

subsection \<open>Example inputs\<close>

definition smtp_creds :: credentials where
  "smtp_creds = \<lparr>cred_host = ''smtp.example.com'', cred_port = 465, cred_secure = True,
                 cred_user = Some ''user'', cred_password = Some ''secret''\<rparr>"

definition no_options :: EmailSendOptions where
  "no_options = \<lparr>allowUnauthorizedCerts = None, attachments = None, ccEmail = None,
                 bccEmail = None, replyTo = None, batching = None\<rparr>"

definition batch_of :: "int \<Rightarrow> int \<Rightarrow> EmailSendOptions" where
  "batch_of bs iv =
     no_options\<lparr>batching :=
       Some \<lparr>batch = Some \<lparr>batchSize = Some bs, batchInterval = Some iv\<rparr>\<rparr>\<rparr>"

definition plain_item :: input_item where
  "plain_item = \<lparr>item_json = ''{}'', binary = None\<rparr>"

definition binary_item :: input_item where
  "binary_item =
     \<lparr>item_json = ''{}'',
      binary = Some [(''a'', \<lparr>fileName = Some ''a.txt'', mimeType = ''text/plain''\<rparr>),
                     (''b'', \<lparr>fileName = None, mimeType = ''image/png''\<rparr>)]\<rparr>"

text \<open>
  A host for the examples. \<open>failing\<close> lists the items whose \<^verbatim>\<open>fromEmail\<close> does not resolve,
  \<open>rejecting\<close> the calls of \<^verbatim>\<open>sendMail\<close> (counted from zero) whose promise is rejected. The
  binary properties are those of \<open>binary_item\<close>; the contents of property \<open>p\<close> are the
  string \<open>p\<close> itself.
\<close>

definition example_host :: "bool \<Rightarrow> string \<Rightarrow> EmailSendOptions \<Rightarrow> nat list \<Rightarrow> nat list \<Rightarrow> exec_ctx" where
  "example_host cof fmt options failing rejecting =
     \<lparr>getNodeParameter = (\<lambda>name i fallback.
         if name = ''fromEmail'' \<and> i \<in> set failing
         then Inl \<lparr>message = ''Could not get parameter'', cert = None\<rparr>
         else if name = ''emailFormat'' then Inr fmt else Inr name),
      getOptions = (\<lambda>i. Inr options),
      getCredentials = Inr smtp_creds,
      assertBinaryData = (\<lambda>i p.
         case map_of (nullish (binary binary_item) []) p of
           None \<Rightarrow> Inl \<lparr>message = ''no binary field'', cert = None\<rparr>
         | Some d \<Rightarrow> Inr d),
      getBinaryDataBuffer = (\<lambda>i p. Inr p),
      continueOnFail = cof,
      sendMail = (\<lambda>k transporter mailOptions.
         if k \<in> set rejecting then Rejected \<lparr>message = ''boom'', cert = Some ''PEM''\<rparr>
         else Fulfilled ''250 OK'')\<rparr>"


section \<open>The first loop\<close>

subsection \<open>Exceptions\<close>

lemma bind_err_Inl [simp]: "bind_err (Inl e) f = Inl e"
  by (simp add: bind_err_def)

lemma bind_err_Inr [simp]: "bind_err (Inr x) f = f x"
  by (simp add: bind_err_def)

lemma bind_err_eq_Inr: "bind_err r f = Inr y \<longleftrightarrow> (\<exists>x. r = Inr x \<and> f x = Inr y)"
  by (cases r) simp_all

subsection \<open>One iteration\<close>

lemma try_body_Inl: "prepare_message ctx i item = Inl e \<Longrightarrow> try_body ctx i item st = Inl e"
  by (simp add: try_body_def)

lemma try_body_Inr:
  "prepare_message ctx i item = Inr (t, m, opts) \<Longrightarrow>
   try_body ctx i item st =
     Inr \<lparr>trace = trace st @ item_events ctx i item,
          sendMailPromises =
            sendMailPromises st @ [sendMail ctx (length (sendMailPromises st)) t m]\<rparr>"
  by (simp add: try_body_def item_events_def Let_def)

lemma item_ok_iff:
  "item_ok ctx items i \<longleftrightarrow> (\<exists>t m opts. prepare_message ctx i (items ! i) = Inr (t, m, opts))"
  by (cases "prepare_message ctx i (items ! i)") (auto simp: item_ok_def)

lemma item_delay_eq:
  "prepare_message ctx i item = Inr (t, m, opts) \<Longrightarrow>
   item_delay ctx i item =
     (if pacing_due i opts then Some (effective_batchInterval opts) else None)"
  by (simp add: item_delay_def)

subsection \<open>The trace of the loop\<close>

text \<open>The trace is the concatenation of what the items add, in the order of the items.\<close>

lemma trace_submit_loop:
  "trace (submit_loop ctx items k st) =
   trace st @
   concat (map (\<lambda>(i, item). item_events ctx i item) (zip [k..<k + length items] items))"
proof (induction items arbitrary: k st)
  case Nil
  show ?case by simp
next
  case (Cons item rest)
  show ?case
  proof (cases "prepare_message ctx k item")
    case (Inl e)
    then show ?thesis
      using Cons.IH [of "Suc k" st]
      by (simp add: try_body_Inl item_events_def upt_conv_Cons del: upt_Suc)
  next
    case (Inr r)
    obtain t m opts where r: "r = (t, m, opts)" by (cases r)
    show ?thesis
      using Cons.IH [of "Suc k"] Inr r
      by (simp add: try_body_Inr upt_conv_Cons del: upt_Suc)
  qed
qed

lemma zip_upt_map: "zip [0..<length xs] xs = map (\<lambda>i. (i, xs ! i)) [0..<length xs]"
  by (rule nth_equalityI) simp_all

lemma trace_submitted:
  "trace (submitted ctx items) =
   concat (map (\<lambda>(i, item). item_events ctx i item) (zip [0..<length items] items))"
  using trace_submit_loop [of ctx items 0] by (simp add: submitted_def)

lemma SendMail_in_item_events:
  "SendMail j t m \<in> set (item_events ctx i item) \<longleftrightarrow>
     j = i \<and> (\<exists>opts. prepare_message ctx i item = Inr (t, m, opts))"
  by (cases "prepare_message ctx i item") (auto simp: item_events_def)

lemma in_trace_iff:
  "e \<in> set (trace (submitted ctx items)) \<longleftrightarrow>
     (\<exists>i<length items. e \<in> set (item_events ctx i (items ! i)))"
  by (auto simp: trace_submitted zip_upt_map)

text \<open>A message is handed to the transport for item \<open>i\<close> exactly when the \<^verbatim>\<open>try\<close> block
  of item \<open>i\<close> has built it.\<close>

lemma SendMail_in_trace:
  "SendMail i t m \<in> set (trace (submitted ctx items)) \<longleftrightarrow>
     i < length items \<and> (\<exists>opts. prepare_message ctx i (items ! i) = Inr (t, m, opts))"
  by (auto simp: in_trace_iff SendMail_in_item_events)

subsection \<open>Pacing sleeps in the trace\<close>

lemma delay_before_item_events:
  "delay_before i (item_events ctx j item @ es) =
     (if j = i \<and> item_delay ctx j item \<noteq> None then item_delay ctx j item
      else delay_before i es)"
  by (auto simp: item_events_def item_delay_def split: sum.splits prod.splits)

lemma delay_before_fragments:
  "delay_before i (concat (map (\<lambda>j. item_events ctx j (items ! j)) [k..<n])) =
     (if k \<le> i \<and> i < n then item_delay ctx i (items ! i) else None)"
proof (induction "n - k" arbitrary: k)
  case 0
  then show ?case by auto
next
  case (Suc d)
  then have kn: "k < n" and d: "d = n - Suc k" by simp_all
  show ?case
    using Suc.hyps(1) [OF d] kn
    by (auto simp: upt_conv_Cons delay_before_item_events simp del: upt_Suc)
qed

lemma delay_before_trace:
  "delay_before i (trace (submitted ctx items)) =
     (if i < length items then item_delay ctx i (items ! i) else None)"
  using delay_before_fragments [of i ctx items 0 "length items"]
  by (simp add: trace_submitted zip_upt_map o_def)

text \<open>What \<open>delay_before\<close> reads: a result \<open>Some ms\<close> means that the trace has a sleep of
  \<open>ms\<close> directly followed by the send of item \<open>i\<close>, and a trace that has any sleep
  directly followed by the send of item \<open>i\<close> never gives \<open>None\<close>.\<close>

lemma delay_before_SomeD:
  "delay_before i tr = Some ms \<Longrightarrow>
   \<exists>pre post t m. tr = pre @ Sleep ms # SendMail i t m # post"
  apply (induction i tr rule: delay_before.induct)
  apply (auto split: if_splits)
  apply (metis append_Cons append_Nil)+
  done

lemma delay_before_adjacent:
  "delay_before i (pre @ Sleep ms # SendMail i t m # post) \<noteq> None"
proof (induction pre rule: length_induct)
  case (1 pre)
  show ?case
  proof (cases pre)
    case Nil
    then show ?thesis by simp
  next
    case (Cons e es)
    show ?thesis
    proof (cases e)
      case (SendMail j t' m')
      with Cons 1 show ?thesis by simp
    next
      case (Sleep a)
      show ?thesis
      proof (cases es)
        case Nil
        with Cons Sleep show ?thesis by simp
      next
        case (Cons e' es')
        show ?thesis
        proof (cases e')
          case (Sleep b)
          have "delay_before i ((Sleep b # es') @ Sleep ms # SendMail i t m # post) \<noteq> None"
            using 1 [rule_format, of "Sleep b # es'"] Cons \<open>pre = e # es\<close> by simp
          with Sleep Cons \<open>pre = e # es\<close> \<open>e = Sleep a\<close> show ?thesis by simp
        next
          case (SendMail j t' m')
          have "delay_before i (es' @ Sleep ms # SendMail i t m # post) \<noteq> None"
            using 1 [rule_format, of es'] Cons \<open>pre = e # es\<close> by simp
          with SendMail Cons \<open>pre = e # es\<close> \<open>e = Sleep a\<close> show ?thesis by simp
        qed
      qed
    qed
  qed
qed

subsection \<open>The promises of the loop\<close>

lemma sends_append [simp]: "sends (xs @ ys) = sends xs @ sends ys"
  by (induction xs rule: sends.induct) simp_all

lemma sends_concat: "sends (concat xss) = concat (map sends xss)"
  by (induction xss) simp_all

lemma sends_item_events:
  "sends (item_events ctx i item) =
     (case prepare_message ctx i item of Inl e \<Rightarrow> [] | Inr (t, m, opts) \<Rightarrow> [(i, t, m)])"
  by (simp add: item_events_def split: sum.splits prod.splits)

lemma enumerate_snoc: "enumerate n (xs @ [x]) = enumerate n xs @ [(n + length xs, x)]"
  by (simp add: enumerate_append_eq)

lemma length_promises_of [simp]: "length (promises_of ctx tr) = length (sends tr)"
  by (simp add: promises_of_def)

text \<open>The loop keeps the promises in step with the calls of \<^verbatim>\<open>sendMail\<close> in the trace.\<close>

lemma try_body_promises:
  assumes "sendMailPromises st = promises_of ctx (trace st)"
    and "try_body ctx i item st = Inr st'"
  shows "sendMailPromises st' = promises_of ctx (trace st')"
proof -
  from assms(2) obtain t m opts where pm: "prepare_message ctx i item = Inr (t, m, opts)"
    by (cases "prepare_message ctx i item") (auto simp: try_body_def)
  have len: "length (sendMailPromises st) = length (sends (trace st))"
    using assms(1) by simp
  have se: "sends (item_events ctx i item) = [(i, t, m)]"
    by (simp add: sends_item_events pm)
  show ?thesis
    using assms try_body_Inr [OF pm, of st] len se
    by (auto simp: promises_of_def enumerate_snoc)
qed

lemma promises_submit_loop:
  "sendMailPromises st = promises_of ctx (trace st) \<Longrightarrow>
   sendMailPromises (submit_loop ctx items k st) =
     promises_of ctx (trace (submit_loop ctx items k st))"
proof (induction items arbitrary: k st)
  case Nil
  then show ?case by simp
next
  case (Cons item rest)
  show ?case
  proof (cases "try_body ctx k item st")
    case (Inl e)
    then show ?thesis using Cons by simp
  next
    case (Inr st')
    then show ?thesis
      using Cons.IH [of st' "Suc k"] try_body_promises [OF Cons.prems Inr] by simp
  qed
qed

lemma promises_submitted:
  "sendMailPromises (submitted ctx items) = promises_of ctx (trace (submitted ctx items))"
  unfolding submitted_def by (rule promises_submit_loop) (simp add: promises_of_def)

lemma sends_submitted:
  "sends (trace (submitted ctx items)) =
   concat (map (\<lambda>i. case prepare_message ctx i (items ! i) of
                        Inl e \<Rightarrow> [] | Inr (t, m, opts) \<Rightarrow> [(i, t, m)]) [0..<length items])"
  by (simp add: trace_submitted sends_concat zip_upt_map o_def sends_item_events)

lemma concat_map_filter:
  "map fst (concat (map (\<lambda>i. case f i of Inl e \<Rightarrow> [] | Inr (t, m, opts) \<Rightarrow> [(i, t, m)]) xs)) =
   filter (\<lambda>i. case f i of Inl e \<Rightarrow> False | Inr r \<Rightarrow> True) xs"
  by (induction xs) (auto split: sum.splits)

text \<open>The items that are sent are those whose \<^verbatim>\<open>try\<close> block runs to its end, in order.\<close>

lemma sent_indices:
  "map fst (sends (trace (submitted ctx items))) = filter (item_ok ctx items) [0..<length items]"
  unfolding sends_submitted item_ok_def by (rule concat_map_filter)

lemma length_promises:
  "length (sendMailPromises (submitted ctx items)) =
   length (filter (item_ok ctx items) [0..<length items])"
  using arg_cong [OF sent_indices [of ctx items], of length]
  by (simp add: promises_submitted)

lemma length_promises_le: "length (sendMailPromises (submitted ctx items)) \<le> length items"
  using length_filter_le [of "item_ok ctx items" "[0..<length items]"]
  by (simp add: length_promises)

text \<open>The \<open>k\<close>-th promise is the \<open>k\<close>-th call of \<^verbatim>\<open>sendMail\<close>, made for the \<open>k\<close>-th item
  that was not skipped.\<close>

lemma nth_promises:
  assumes "k < length (sendMailPromises (submitted ctx items))"
  shows "\<exists>i t m opts. sends (trace (submitted ctx items)) ! k = (i, t, m) \<and>
           i = filter (item_ok ctx items) [0..<length items] ! k \<and> i < length items \<and>
           prepare_message ctx i (items ! i) = Inr (t, m, opts) \<and>
           sendMailPromises (submitted ctx items) ! k = sendMail ctx k t m"
proof -
  let ?tr = "trace (submitted ctx items)"
  have k: "k < length (sends ?tr)" using assms by (simp add: promises_submitted)
  obtain i t m where e: "sends ?tr ! k = (i, t, m)" by (cases "sends ?tr ! k")
  have "map fst (sends ?tr) ! k = i" using k e by simp
  then have i: "i = filter (item_ok ctx items) [0..<length items] ! k"
    by (simp add: sent_indices)
  have "(i, t, m) \<in> set (sends ?tr)" using k e by (metis nth_mem)
  then obtain j where j: "j < length items"
    "(i, t, m) \<in> set (case prepare_message ctx j (items ! j) of
                          Inl e \<Rightarrow> [] | Inr (t, m, opts) \<Rightarrow> [(j, t, m)])"
    by (auto simp: sends_submitted)
  then obtain opts where "prepare_message ctx j (items ! j) = Inr (t, m, opts)" "i = j"
    by (cases "prepare_message ctx j (items ! j)") auto
  with j have pm: "i < length items" "prepare_message ctx i (items ! i) = Inr (t, m, opts)"
    by simp_all
  have "sendMailPromises (submitted ctx items) ! k = sendMail ctx k t m"
    using k e by (simp add: promises_submitted promises_of_def nth_enumerate_eq)
  with e i pm show ?thesis by blast
qed

subsection \<open>Positions in a filtered range\<close>

text \<open>The \<open>k\<close>-th element of a filtered initial segment of the naturals is at least \<open>k\<close>,
  and more than \<open>k\<close> once an element below it was filtered out.\<close>

lemma filter_upt_nth_ge:
  assumes "k < length (filter P [0..<n])"
  shows "k \<le> filter P [0..<n] ! k"
    and "s < filter P [0..<n] ! k \<Longrightarrow> \<not> P s \<Longrightarrow> k < filter P [0..<n] ! k"
proof -
  define xs where "xs = filter P [0..<n]"
  have k: "k < length xs" using assms by (simp add: xs_def)
  have sorted: "sorted_wrt (<) xs"
    unfolding xs_def by (rule sorted_wrt_filter) (rule sorted_wrt_upt)
  have dist: "distinct xs" unfolding xs_def by simp
  have allP: "\<And>x. x \<in> set xs \<Longrightarrow> P x" unfolding xs_def by simp
  define S where "S = set (take (Suc k) xs)"
  have "distinct (take (Suc k) xs)" using dist by (rule distinct_take)
  then have "card S = length (take (Suc k) xs)" unfolding S_def by (rule distinct_card)
  then have card: "card S = Suc k" using k by simp
  have le: "x \<le> xs ! k" if "x \<in> S" for x
  proof -
    from that obtain j where j: "j < length (take (Suc k) xs)" "x = take (Suc k) xs ! j"
      unfolding S_def in_set_conv_nth by blast
    then have jk: "j \<le> k" and x: "x = xs ! j" using k by simp_all
    show ?thesis
    proof (cases "j = k")
      case True
      with x show ?thesis by simp
    next
      case False
      with jk have "j < k" by simp
      with sorted have "xs ! j < xs ! k"
        using k by (rule sorted_wrt_nth_less)
      with x show ?thesis by simp
    qed
  qed
  have PS: "P x" if "x \<in> S" for x
    using that allP in_set_takeD unfolding S_def by metis
  have fin: "finite {..xs ! k}" by simp
  have "S \<subseteq> {..xs ! k}" using le by blast
  then have "card S \<le> card {..xs ! k}" using fin by (rule card_mono [rotated])
  then show "k \<le> filter P [0..<n] ! k" using card by (simp add: xs_def)
  assume s: "s < filter P [0..<n] ! k" "\<not> P s"
  then have s': "s \<in> {..xs ! k}" by (simp add: xs_def)
  have "s \<notin> S" using PS s(2) by blast
  then have "S \<subseteq> {..xs ! k} - {s}" using le by blast
  moreover have "finite ({..xs ! k} - {s})" by simp
  ultimately have "card S \<le> card ({..xs ! k} - {s})" by (rule card_mono [rotated])
  also have "\<dots> = card {..xs ! k} - 1" using s' by (simp only: card_Diff_singleton)
  also have "\<dots> = xs ! k" by simp
  finally show "k < filter P [0..<n] ! k" using card by (simp add: xs_def)
qed

subsection \<open>The message of one item\<close>

lemma split_on_not_Nil: "split_on sep s \<noteq> []"
  by (induction s) (auto split: list.splits)

lemma build_attachment_InrD:
  assumes "build_attachment ctx i p = Inr a"
  shows "cid a = p \<and>
         (\<exists>binaryData. assertBinaryData ctx i p = Inr binaryData \<and>
            filename a = (case fileName binaryData of
                            None \<Rightarrow> ''unknown''
                          | Some f \<Rightarrow> if f = [] then ''unknown'' else f)) \<and>
         getBinaryDataBuffer ctx i p = Inr (content a)"
proof -
  from assms obtain binaryData buffer where
    b: "assertBinaryData ctx i p = Inr binaryData"
    and c: "getBinaryDataBuffer ctx i p = Inr buffer"
    and a: "a = \<lparr>filename = (if truthy (fileName binaryData)
                                then nullish (fileName binaryData) ''unknown'' else ''unknown''),
                    content = buffer, cid = p\<rparr>"
    by (auto simp: build_attachment_def bind_err_eq_Inr)
  have "filename a = (case fileName binaryData of
                        None \<Rightarrow> ''unknown''
                      | Some f \<Rightarrow> if f = [] then ''unknown'' else f)"
    by (cases "fileName binaryData") (simp_all add: a truthy_def nullish_def)
  with a b c show ?thesis by auto
qed

lemma build_attachments_InrD:
  "build_attachments ctx i ps acc = Inr atts \<Longrightarrow>
   \<exists>new. atts = acc @ new \<and> list_all2 (\<lambda>p a. build_attachment ctx i p = Inr a) ps new"
proof (induction ps arbitrary: acc)
  case Nil
  then show ?case by simp
next
  case (Cons p ps)
  from Cons.prems obtain a where a: "build_attachment ctx i p = Inr a"
    and rest: "build_attachments ctx i ps (acc @ [a]) = Inr atts"
    by (auto simp: bind_err_eq_Inr)
  from Cons.IH [OF rest] obtain new where
    "atts = (acc @ [a]) @ new" "list_all2 (\<lambda>p a. build_attachment ctx i p = Inr a) ps new"
    by blast
  then have "atts = acc @ (a # new) \<and>
      list_all2 (\<lambda>p a. build_attachment ctx i p = Inr a) (p # ps) (a # new)"
    using a by simp
  then show ?case by blast
qed

lemma add_attachments_InrD:
  assumes "add_attachments ctx i item opts m0 = Inr m"
  shows "if truthy (attachments opts) \<and> binary item \<noteq> None
         then \<exists>atts. m = m0\<lparr>mail_attachments := Some atts\<rparr> \<and> atts \<noteq> [] \<and>
                list_all2 (\<lambda>p a. build_attachment ctx i p = Inr a)
                  (map trim (split_on CHR '','' (nullish (attachments opts) []))) atts
         else m = m0"
proof (cases "truthy (attachments opts) \<and> binary item \<noteq> None")
  case False
  with assms show ?thesis by (auto simp: add_attachments_def)
next
  case True
  let ?names = "map trim (split_on CHR '','' (nullish (attachments opts) []))"
  from True assms obtain atts where b: "build_attachments ctx i ?names [] = Inr atts"
    and m: "m = (if atts \<noteq> [] then m0\<lparr>mail_attachments := Some atts\<rparr> else m0)"
    by (auto simp: add_attachments_def bind_err_eq_Inr)
  from build_attachments_InrD [OF b]
  have l: "list_all2 (\<lambda>p a. build_attachment ctx i p = Inr a) ?names atts" by simp
  from list_all2_lengthD [OF l]
  have "length atts = length (split_on CHR '','' (nullish (attachments opts) []))"
    by simp
  then have ne: "atts \<noteq> []"
    using split_on_not_Nil [of "CHR '',''" "nullish (attachments opts) []"] by auto
  with True m l show ?thesis by auto
qed

text \<open>What a \<^verbatim>\<open>try\<close> block that builds a message has resolved on its way.\<close>

lemma prepare_message_InrD:
  assumes "prepare_message ctx i item = Inr (t, m, opts)"
  shows "\<exists>fromEmail toEmail subject emailFormat creds text_field html_field.
           getNodeParameter ctx ''fromEmail'' i None = Inr fromEmail \<and>
           getNodeParameter ctx ''toEmail'' i None = Inr toEmail \<and>
           getNodeParameter ctx ''subject'' i None = Inr subject \<and>
           getNodeParameter ctx ''emailFormat'' i None = Inr emailFormat \<and>
           getOptions ctx i = Inr opts \<and>
           getCredentials ctx = Inr creds \<and>
           t = configureTransport creds opts \<and>
           (if emailFormat = ''text''
            then \<exists>x. getNodeParameter ctx ''text'' i (Some []) = Inr x \<and> text_field = Some x
            else text_field = None) \<and>
           (if emailFormat = ''html''
            then \<exists>x. getNodeParameter ctx ''html'' i (Some []) = Inr x \<and> html_field = Some x
            else html_field = None) \<and>
           add_attachments ctx i item opts
             \<lparr>mail_from = fromEmail, mail_to = toEmail, mail_cc = ccEmail opts,
              mail_bcc = bccEmail opts, mail_subject = subject,
              mail_replyTo = replyTo opts, mail_text = text_field,
              mail_html = html_field, mail_attachments = None\<rparr> = Inr m"
proof -
  from assms obtain fromEmail where 1: "getNodeParameter ctx ''fromEmail'' i None = Inr fromEmail"
    by (cases "getNodeParameter ctx ''fromEmail'' i None") (simp_all add: prepare_message_def)
  from assms 1 obtain toEmail where 2: "getNodeParameter ctx ''toEmail'' i None = Inr toEmail"
    by (cases "getNodeParameter ctx ''toEmail'' i None") (simp_all add: prepare_message_def)
  from assms 1 2 obtain subject where 3: "getNodeParameter ctx ''subject'' i None = Inr subject"
    by (cases "getNodeParameter ctx ''subject'' i None") (simp_all add: prepare_message_def)
  from assms 1 2 3 obtain emailFormat where
    4: "getNodeParameter ctx ''emailFormat'' i None = Inr emailFormat"
    by (cases "getNodeParameter ctx ''emailFormat'' i None") (simp_all add: prepare_message_def)
  from assms 1 2 3 4 obtain options where 5: "getOptions ctx i = Inr options"
    by (cases "getOptions ctx i") (simp_all add: prepare_message_def)
  from assms 1 2 3 4 5 obtain creds where 6: "getCredentials ctx = Inr creds"
    by (cases "getCredentials ctx") (simp_all add: prepare_message_def)
  define tf where "tf = (if emailFormat = ''text''
               then bind_err (getNodeParameter ctx ''text'' i (Some []))
                      (\<lambda>t. Inr (Some t))
               else Inr None)"
  define hf where "hf = (if emailFormat = ''html''
               then bind_err (getNodeParameter ctx ''html'' i (Some []))
                      (\<lambda>t. Inr (Some t))
               else Inr None)"
  from assms 1 2 3 4 5 6 obtain text_field where 7: "tf = Inr text_field"
    by (cases tf) (simp_all add: prepare_message_def tf_def)
  from assms 1 2 3 4 5 6 7 obtain html_field where 8: "hf = Inr html_field"
    by (cases hf) (simp_all add: prepare_message_def tf_def hf_def)
  let ?m0 = "\<lparr>mail_from = fromEmail, mail_to = toEmail, mail_cc = ccEmail options,
              mail_bcc = bccEmail options, mail_subject = subject,
              mail_replyTo = replyTo options, mail_text = text_field,
              mail_html = html_field, mail_attachments = None\<rparr>"
  from assms 1 2 3 4 5 6 7 8 have 9: "bind_err (add_attachments ctx i item options ?m0)
      (\<lambda>mailOptions. Inr (configureTransport creds options, mailOptions, options)) =
      Inr (t, m, opts)"
    by (simp add: prepare_message_def tf_def hf_def)
  then obtain m' where 10: "add_attachments ctx i item options ?m0 = Inr m'"
    and 11: "(configureTransport creds options, m', options) = (t, m, opts)"
    by (auto simp: bind_err_eq_Inr)
  have t7: "if emailFormat = ''text''
            then \<exists>x. getNodeParameter ctx ''text'' i (Some []) = Inr x \<and> text_field = Some x
            else text_field = None"
    using 7 by (auto simp: tf_def bind_err_eq_Inr split: if_splits)
  have t8: "if emailFormat = ''html''
            then \<exists>x. getNodeParameter ctx ''html'' i (Some []) = Inr x \<and> html_field = Some x
            else html_field = None"
    using 8 by (auto simp: hf_def bind_err_eq_Inr split: if_splits)
  from 11 have "options = opts" "m' = m" "t = configureTransport creds opts" by auto
  with 1 2 3 4 5 6 t7 t8 10 show ?thesis by blast
qed

section \<open>Settling and the second loop\<close>

subsection \<open>allSettled\<close>

lemma length_fill [simp]: "length (fill ps k slots) = length slots"
  by (simp add: fill_def)

lemma nth_fill:
  "j < length slots \<Longrightarrow> fill ps k slots ! j = (if j = k then Some (ps ! k) else slots ! j)"
  by (simp add: fill_def nth_list_update)

lemma length_fold_fill [simp]: "length (fold (fill ps) arr slots) = length slots"
  by (induction arr arbitrary: slots) simp_all

lemma nth_fold_fill:
  "j < length slots \<Longrightarrow>
   fold (fill ps) arr slots ! j = (if j \<in> set arr then Some (ps ! j) else slots ! j)"
proof (induction arr arbitrary: slots)
  case Nil
  then show ?case by simp
next
  case (Cons a arr)
  have "fold (fill ps) (a # arr) slots ! j = fold (fill ps) arr (fill ps a slots) ! j"
    by simp
  also have "\<dots> = (if j \<in> set arr then Some (ps ! j) else fill ps a slots ! j)"
    using Cons.IH [of "fill ps a slots"] Cons.prems by simp
  also have "\<dots> = (if j \<in> set (a # arr) then Some (ps ! j) else slots ! j)"
    using Cons.prems by (simp add: nth_fill)
  finally show ?case .
qed

lemma allSettled_fill:
  "allSettled arrival ps =
     (let slots = fold (fill ps) arrival (replicate (length ps) None)
      in if list_all (\<lambda>s. s \<noteq> None) slots
         then Some (map (\<lambda>s. nullish s (Fulfilled [])) slots) else None)"
proof -
  have "fill ps = (\<lambda>k slots. if k < length slots then slots[k := Some (ps ! k)] else slots)"
    by (intro ext) (simp add: fill_def)
  then show ?thesis by (simp add: allSettled_def)
qed

text \<open>Once every send has completed, in whatever order, the results are those of the
  promises, in the order of the promises.\<close>

lemma allSettled_complete:
  assumes "{..<length ps} \<subseteq> set arrival"
  shows "allSettled arrival ps = Some ps"
proof -
  define slots where "slots = fold (fill ps) arrival (replicate (length ps) None)"
  have len: "length slots = length ps" by (simp add: slots_def)
  have nth: "slots ! k = Some (ps ! k)" if "k < length ps" for k
  proof -
    have "k \<in> set arrival" using that assms by blast
    then show ?thesis
      unfolding slots_def using that by (simp add: nth_fold_fill)
  qed
  have eq: "slots = map Some ps"
    by (rule nth_equalityI) (simp_all add: len nth)
  have "allSettled arrival ps =
      (if list_all (\<lambda>s. s \<noteq> None) slots
       then Some (map (\<lambda>s. nullish s (Fulfilled [])) slots) else None)"
    by (simp add: allSettled_fill slots_def)
  also have "\<dots> = Some ps"
    unfolding eq by (simp add: list_all_iff o_def nullish_def)
  finally show ?thesis .
qed

text \<open>As long as one send has not completed, there is no result.\<close>

lemma allSettled_pending:
  assumes "k < length ps" "k \<notin> set arrival"
  shows "allSettled arrival ps = None"
proof -
  define slots where "slots = fold (fill ps) arrival (replicate (length ps) None)"
  have len: "length slots = length ps" by (simp add: slots_def)
  have "slots ! k = None"
    unfolding slots_def using assms by (simp add: nth_fold_fill)
  then have "None \<in> set slots"
    using assms(1) len by (metis nth_mem)
  then have "\<not> list_all (\<lambda>s. s \<noteq> None) slots"
    by (auto simp: list_all_iff)
  moreover have "allSettled arrival ps =
      (if list_all (\<lambda>s. s \<noteq> None) slots
       then Some (map (\<lambda>s. nullish s (Fulfilled [])) slots) else None)"
    by (simp add: allSettled_fill slots_def)
  ultimately show ?thesis by simp
qed

lemma execute_settled:
  assumes "{..<length (sendMailPromises (submitted ctx items))} \<subseteq> set arrival"
  shows "execute ctx arrival items =
     (case output_loop ctx (length items) 0 (sendMailPromises (submitted ctx items)) [] of
        (returnData, Some e) \<Rightarrow> Some (Inl e)
      | (returnData, None) \<Rightarrow> Some (Inr (prepareOutputData returnData)))"
  by (simp add: execute_def allSettled_complete [OF assms])

subsection \<open>The second loop\<close>

lemma output_loop_done: "n \<le> i \<Longrightarrow> output_loop ctx n i rs rd = (rd, None)"
  by (subst output_loop.simps) simp

lemma output_loop_empty: "i < n \<Longrightarrow> output_loop ctx n i [] rd = (rd, Some TypeError)"
  by (subst output_loop.simps) simp

lemma output_loop_Fulfilled:
  "i < n \<Longrightarrow> output_loop ctx n i (Fulfilled v # rs) rd =
     output_loop ctx n (Suc i) rs (rd @ [outcome_of i (Fulfilled v)])"
  by (subst output_loop.simps) (simp add: outcome_of_def)

lemma output_loop_Rejected_continue:
  "i < n \<Longrightarrow> continueOnFail ctx \<Longrightarrow> output_loop ctx n i (Rejected e # rs) rd =
     output_loop ctx n (Suc i) rs (rd @ [outcome_of i (Rejected e)])"
  by (subst output_loop.simps) (simp add: outcome_of_def)

lemma output_loop_Rejected_abort:
  "i < n \<Longrightarrow> \<not> continueOnFail ctx \<Longrightarrow> output_loop ctx n i (Rejected e # rs) rd =
     (rd, Some (NodeApiError (e\<lparr>cert := None\<rparr>)))"
  by (subst output_loop.simps) simp

lemmas output_loop_steps = output_loop_done output_loop_empty output_loop_Fulfilled
  output_loop_Rejected_continue output_loop_Rejected_abort

lemma pairedItem_outcome_of [simp]: "pairedItem (outcome_of i r) = i"
  by (cases r) (simp_all add: outcome_of_def)

lemma paired_Nil [simp]: "paired i [] = []"
  by (simp add: paired_def)

lemma paired_Cons [simp]: "paired i (r # rs) = outcome_of i r # paired (Suc i) rs"
  by (simp add: paired_def upt_conv_Cons del: upt_Suc)

lemma length_paired [simp]: "length (paired i rs) = length rs"
  by (simp add: paired_def)

lemma nth_paired: "k < length rs \<Longrightarrow> paired i rs ! k = outcome_of (i + k) (rs ! k)"
  by (simp add: paired_def)

lemma paired_take_eq_map:
  "k \<le> length rs \<Longrightarrow> paired 0 (take k rs) = map (\<lambda>j. outcome_of j (rs ! j)) [0..<k]"
  by (rule nth_equalityI) (simp_all add: nth_paired)

lemma first_rejected_None_iff: "first_rejected rs = None \<longleftrightarrow> (\<forall>e. Rejected e \<notin> set rs)"
  by (induction rs rule: first_rejected.induct) auto

lemma first_rejected_SomeD:
  "first_rejected rs = Some reason \<Longrightarrow>
   \<exists>pre post. rs = pre @ Rejected reason # post \<and> (\<forall>r\<in>set pre. \<exists>v. r = Fulfilled v)"
proof (induction rs rule: first_rejected.induct)
  case 1
  then show ?case by simp
next
  case (2 v rs)
  then obtain pre post where
    "rs = pre @ Rejected reason # post" "\<forall>r\<in>set pre. \<exists>v. r = Fulfilled v"
    by auto
  then have "Fulfilled v # rs = (Fulfilled v # pre) @ Rejected reason # post \<and>
             (\<forall>r\<in>set (Fulfilled v # pre). \<exists>v. r = Fulfilled v)" by simp
  then show ?case by blast
next
  case (3 e rs)
  then have "Rejected e # rs = [] @ Rejected reason # rs \<and> (\<forall>r\<in>set []. \<exists>v. r = Fulfilled v)"
    by simp
  then show ?case by blast
qed

text \<open>As many results as iterations, and no rejection that aborts: one record for each
  result, and the loop ends normally.\<close>

lemma output_loop_all:
  "continueOnFail ctx \<or> first_rejected rs = None \<Longrightarrow> i + length rs = n \<Longrightarrow>
   output_loop ctx n i rs rd = (rd @ paired i rs, None)"
proof (induction rs arbitrary: i rd)
  case Nil
  then show ?case by (simp add: output_loop_done)
next
  case (Cons r rs)
  then have "i < n" by simp
  with Cons show ?case
    by (cases r) (auto simp: output_loop_steps)
qed

text \<open>Fewer results than iterations, and no rejection that aborts: the loop runs out of
  results and throws the \<^verbatim>\<open>TypeError\<close>.\<close>

lemma output_loop_short:
  "continueOnFail ctx \<or> first_rejected rs = None \<Longrightarrow> i + length rs < n \<Longrightarrow>
   output_loop ctx n i rs rd = (rd @ paired i rs, Some TypeError)"
proof (induction rs arbitrary: i rd)
  case Nil
  then show ?case by (simp add: output_loop_empty)
next
  case (Cons r rs)
  then have "i < n" by simp
  with Cons show ?case
    by (cases r) (auto simp: output_loop_steps)
qed

text \<open>A rejection without the policy to continue: the loop throws at the first one.\<close>

lemma output_loop_abort:
  "\<not> continueOnFail ctx \<Longrightarrow> first_rejected rs = Some reason \<Longrightarrow> i + length rs \<le> n \<Longrightarrow>
   \<exists>k<length rs. output_loop ctx n i rs rd =
      (rd @ paired i (take k rs), Some (NodeApiError (reason\<lparr>cert := None\<rparr>)))"
proof (induction rs arbitrary: i rd)
  case Nil
  then show ?case by simp
next
  case (Cons r rs)
  then have lt: "i < n" by simp
  show ?case
  proof (cases r)
    case (Fulfilled v)
    with Cons.prems have "first_rejected rs = Some reason" "Suc i + length rs \<le> n" by simp_all
    from Cons.IH [OF Cons.prems(1) this, of "rd @ [outcome_of i r]"]
    obtain k where "k < length rs"
      "output_loop ctx n (Suc i) rs (rd @ [outcome_of i r]) =
         ((rd @ [outcome_of i r]) @ paired (Suc i) (take k rs),
          Some (NodeApiError (reason\<lparr>cert := None\<rparr>)))"
      by blast
    then have "Suc k < length (r # rs) \<and> output_loop ctx n i (r # rs) rd =
        (rd @ paired i (take (Suc k) (r # rs)), Some (NodeApiError (reason\<lparr>cert := None\<rparr>)))"
      using lt Fulfilled by (simp add: output_loop_Fulfilled)
    then show ?thesis by blast
  next
    case (Rejected e)
    with Cons.prems lt have "0 < length (r # rs) \<and> output_loop ctx n i (r # rs) rd =
        (rd @ paired i (take 0 (r # rs)), Some (NodeApiError (reason\<lparr>cert := None\<rparr>)))"
      by (simp add: output_loop_Rejected_abort)
    then show ?thesis by blast
  qed
qed

text \<open>Whatever happens, \<^verbatim>\<open>returnData\<close> holds the records of a prefix of the results, the
  \<open>k\<close>-th of them paired with the loop index \<open>k\<close>.\<close>

lemma output_loop_fst:
  "\<exists>k\<le>length rs. fst (output_loop ctx n i rs rd) = rd @ paired i (take k rs)"
proof (induction rs arbitrary: i rd)
  case Nil
  show ?case by (cases "i < n") (simp_all add: output_loop_steps)
next
  case (Cons r rs)
  show ?case
  proof (cases "i < n")
    case False
    then have "fst (output_loop ctx n i (r # rs) rd) = rd @ paired i (take 0 (r # rs))"
      by (simp add: output_loop_done)
    then show ?thesis by blast
  next
    case True
    show ?thesis
    proof (cases "\<exists>e. r = Rejected e \<and> \<not> continueOnFail ctx")
      case True
      then have "fst (output_loop ctx n i (r # rs) rd) = rd @ paired i (take 0 (r # rs))"
        using \<open>i < n\<close> by (auto simp: output_loop_Rejected_abort)
      then show ?thesis by blast
    next
      case False
      then have step: "output_loop ctx n i (r # rs) rd =
          output_loop ctx n (Suc i) rs (rd @ [outcome_of i r])"
        using \<open>i < n\<close> by (cases r) (auto simp: output_loop_steps)
      obtain k where "k \<le> length rs"
        "fst (output_loop ctx n (Suc i) rs (rd @ [outcome_of i r])) =
           (rd @ [outcome_of i r]) @ paired (Suc i) (take k rs)"
        using Cons.IH by blast
      then have "Suc k \<le> length (r # rs) \<and>
          fst (output_loop ctx n i (r # rs) rd) = rd @ paired i (take (Suc k) (r # rs))"
        using step by simp
      then show ?thesis by blast
    qed
  qed
qed

lemma js_rem_zero_iff:
  "(0 \<le> b \<and> js_rem (int i) b = Some 0) = (0 < b \<and> int i mod b = 0)"
  by (cases "i = 0") (auto simp: js_rem_def)

section \<open>The claims\<close>

text \<open>
  A statement about what \<^verbatim>\<open>execute\<close> returns or raises assumes that every submitted send
  settles: \<open>{..<length promises} \<subseteq> set arrival\<close>. The order of \<open>arrival\<close> is arbitrary.
\<close>

subsection \<open>C1: one outcome for each item\<close>

text \<open>
  C1, amended. For every input on which the \<^verbatim>\<open>try\<close> block of every item runs to its end
  (parameters, credentials and binary data resolve), on which every send settles, and on
  which the failure policy is to continue or no send is rejected: \<^verbatim>\<open>execute\<close> returns, on
  its single output, exactly one record for each item; the output has the length of the
  input; and the record at position \<open>i\<close> carries \<^verbatim>\<open>pairedItem.item = i\<close> and is built from how
  the send of the message of item \<open>i\<close> settled. The order in which the sends complete does
  not enter the result.
\<close>

theorem execute_one_outcome_per_item:
  assumes ok: "\<forall>i<length items. item_ok ctx items i"
    and settle: "{..<length items} \<subseteq> set arrival"
    and policy: "continueOnFail ctx \<or> first_rejected (sendMailPromises (submitted ctx items)) = None"
  shows "\<exists>returnData.
           execute ctx arrival items = Some (Inr [returnData]) \<and>
           length returnData = length items \<and>
           (\<forall>i<length items.
              pairedItem (returnData ! i) = i \<and>
              (\<exists>transporter mailOptions options.
                 prepare_message ctx i (items ! i) = Inr (transporter, mailOptions, options) \<and>
                 returnData ! i = outcome_of i (sendMail ctx i transporter mailOptions)))"
proof -
  let ?ps = "sendMailPromises (submitted ctx items)"
  have idx: "filter (item_ok ctx items) [0..<length items] = [0..<length items]"
    using ok by (intro filter_True) simp
  then have len: "length ?ps = length items" by (simp add: length_promises)
  have loop: "output_loop ctx (length items) 0 ?ps [] = ([] @ paired 0 ?ps, None)"
    using policy len by (intro output_loop_all) simp_all
  have settle': "{..<length ?ps} \<subseteq> set arrival" using settle len by simp
  have ex: "execute ctx arrival items = Some (Inr [paired 0 ?ps])"
    by (simp add: execute_settled [OF settle'] loop prepareOutputData_def)
  have each: "pairedItem (paired 0 ?ps ! i) = i \<and>
      (\<exists>t m opts. prepare_message ctx i (items ! i) = Inr (t, m, opts) \<and>
         paired 0 ?ps ! i = outcome_of i (sendMail ctx i t m))" if i: "i < length items" for i
  proof -
    from i len have k: "i < length ?ps" by simp
    from nth_promises [OF k] obtain j t m opts where
      j: "j = filter (item_ok ctx items) [0..<length items] ! i"
      and pm: "prepare_message ctx j (items ! j) = Inr (t, m, opts)"
      and p: "?ps ! i = sendMail ctx i t m" by blast
    from j i have "j = i" by (simp add: idx)
    with pm p k show ?thesis
      by (auto simp: nth_paired)
  qed
  from ex len each show ?thesis by (intro exI [of _ "paired 0 ?ps"]) simp
qed

text \<open>An instance: two items, the policy to continue, the second send rejected, and the
  second send completing before the first.\<close>

theorem execute_one_outcome_per_item_witness:
  "list_all (item_ok (example_host True ''text'' no_options [] [1]) [plain_item, plain_item])
     [0..<length [plain_item, plain_item]] \<and>
   {..<length [plain_item, plain_item]} \<subseteq> set [1, 0] \<and>
   continueOnFail (example_host True ''text'' no_options [] [1]) \<and>
   (\<exists>returnData.
      execute (example_host True ''text'' no_options [] [1]) [1, 0] [plain_item, plain_item] =
        Some (Inr [returnData]) \<and>
      length returnData = 2 \<and>
      pairedItem (returnData ! 0) = 0 \<and> pairedItem (returnData ! 1) = 1)"
proof -
  let ?H = "example_host True ''text'' no_options [] [1]"
  let ?items = "[plain_item, plain_item]"
  have ok: "list_all (item_ok ?H ?items) [0..<length ?items]" by code_simp
  then have ok': "\<forall>i<length ?items. item_ok ?H ?items i" by (auto simp: less_Suc_eq)
  have settle: "{..<length ?items} \<subseteq> set [1, 0]" by (auto simp: less_Suc_eq)
  have pol: "continueOnFail ?H" by (simp add: example_host_def)
  from execute_one_outcome_per_item [OF ok' settle disjI1 [OF pol]] obtain returnData where
    r: "execute ?H [1, 0] ?items = Some (Inr [returnData])" "length returnData = length ?items"
      "\<forall>i<length ?items. pairedItem (returnData ! i) = i"
    by blast
  from r(3) have "pairedItem (returnData ! 0) = 0" "pairedItem (returnData ! 1) = 1" by simp_all
  with r(1,2) ok settle pol show ?thesis by auto
qed

text \<open>
  C1 as stated fails at two inputs. With the policy to continue, one item whose
  \<^verbatim>\<open>fromEmail\<close> does not resolve: no promise is pushed, the second loop shifts
  \<^verbatim>\<open>undefined\<close> and \<^verbatim>\<open>execute\<close> throws the \<^verbatim>\<open>TypeError\<close>. With the policy to abort, one
  item that resolves and whose send is rejected: \<^verbatim>\<open>execute\<close> throws the \<^verbatim>\<open>NodeApiError\<close>.
  Neither returns a record.
\<close>

theorem execute_raises_counterexample:
  "execute (example_host True ''text'' no_options [0] []) [] [plain_item] = Some (Inl TypeError) \<and>
   execute (example_host False ''text'' no_options [] [0]) [0] [plain_item] =
     Some (Inl (NodeApiError \<lparr>message = ''boom'', cert = None\<rparr>))"
  by code_simp

subsection \<open>C2: pacing\<close>

text \<open>
  C2. For every item \<open>i\<close> that is submitted: a pacing sleep immediately precedes its
  submission if and only if \<open>0 < i\<close>, \<open>batchSize \<ge> 0\<close>, \<open>batchInterval > 0\<close> and
  \<^verbatim>\<open>i % batchSize === 0\<close>, and it then lasts \<open>batchInterval\<close> milliseconds. For a
  \<open>batchSize \<ge> 0\<close> the test \<^verbatim>\<open>i % batchSize === 0\<close> says that \<open>batchSize\<close> is positive and
  divides \<open>i\<close>. Without the batching option the two values are 1 and 1000. A \<open>batchSize\<close>
  of \<open>-1\<close> or a \<open>batchInterval\<close> of 0 means no sleep.
\<close>

theorem pacing_delay_iff:
  assumes "i < length items"
    and "prepare_message ctx i (items ! i) = Inr (transporter, mailOptions, options)"
  shows "delay_before i (trace (submitted ctx items)) =
           (if 0 < i \<and> 0 \<le> effective_batchSize options \<and> 0 < effective_batchInterval options \<and>
               js_rem (int i) (effective_batchSize options) = Some 0
            then Some (effective_batchInterval options) else None) \<and>
         (0 \<le> effective_batchSize options \<and> js_rem (int i) (effective_batchSize options) = Some 0) =
           (0 < effective_batchSize options \<and> int i mod effective_batchSize options = 0) \<and>
         (batching options = None \<longrightarrow>
            effective_batchSize options = 1 \<and> effective_batchInterval options = 1000) \<and>
         (effective_batchSize options = - 1 \<or> effective_batchInterval options = 0 \<longrightarrow>
            delay_before i (trace (submitted ctx items)) = None)"
proof -
  have d: "delay_before i (trace (submitted ctx items)) =
      (if pacing_due i options then Some (effective_batchInterval options) else None)"
    using assms by (simp add: delay_before_trace item_delay_eq)
  have "batching options = None \<longrightarrow>
      effective_batchSize options = 1 \<and> effective_batchInterval options = 1000"
    by (simp add: effective_batchSize_def effective_batchInterval_def nullish_def)
  moreover have "effective_batchSize options = - 1 \<or> effective_batchInterval options = 0 \<longrightarrow>
      delay_before i (trace (submitted ctx items)) = None"
    by (auto simp: d pacing_due_def)
  moreover have "delay_before i (trace (submitted ctx items)) =
           (if 0 < i \<and> 0 \<le> effective_batchSize options \<and> 0 < effective_batchInterval options \<and>
               js_rem (int i) (effective_batchSize options) = Some 0
            then Some (effective_batchInterval options) else None)"
    by (simp add: d pacing_due_def)
  ultimately show ?thesis using js_rem_zero_iff [of "effective_batchSize options" i] by blast
qed

text \<open>The example of the claim: \<open>batchSize = 2\<close>, \<open>batchInterval = 100\<close> and five items, all
  submitted. There is a sleep of 100 before items 2 and 4, and none before items 0, 1
  and 3.\<close>

theorem pacing_delay_iff_witness:
  "list_all (item_ok (example_host True ''text'' (batch_of 2 100) [] []) (replicate 5 plain_item))
     [0..<5] \<and>
   delay_before 0 (trace (submitted (example_host True ''text'' (batch_of 2 100) [] [])
                            (replicate 5 plain_item))) = None \<and>
   delay_before 1 (trace (submitted (example_host True ''text'' (batch_of 2 100) [] [])
                            (replicate 5 plain_item))) = None \<and>
   delay_before 2 (trace (submitted (example_host True ''text'' (batch_of 2 100) [] [])
                            (replicate 5 plain_item))) = Some 100 \<and>
   delay_before 3 (trace (submitted (example_host True ''text'' (batch_of 2 100) [] [])
                            (replicate 5 plain_item))) = None \<and>
   delay_before 4 (trace (submitted (example_host True ''text'' (batch_of 2 100) [] [])
                            (replicate 5 plain_item))) = Some 100"
proof -
  let ?H = "example_host True ''text'' (batch_of 2 100) [] []"
  let ?items = "replicate 5 plain_item"
  have ok: "list_all (item_ok ?H ?items) [0..<5]" by code_simp
  have pm: "\<exists>t m. prepare_message ?H i (?items ! i) = Inr (t, m, batch_of 2 100)" if "i < 5" for i
    using that
    by (simp add: prepare_message_def example_host_def add_attachments_def truthy_def
        batch_of_def no_options_def plain_item_def)
  have bs: "effective_batchSize (batch_of 2 100) = 2"
    and iv: "effective_batchInterval (batch_of 2 100) = 100"
    by (simp_all add: effective_batchSize_def effective_batchInterval_def batch_of_def
        nullish_def)
  have d: "delay_before i (trace (submitted ?H ?items)) =
      (if 0 < i \<and> js_rem (int i) 2 = Some 0 then Some 100 else None)" if "i < 5" for i
  proof -
    from pm [OF that] obtain t m where
      "prepare_message ?H i (?items ! i) = Inr (t, m, batch_of 2 100)" by blast
    from pacing_delay_iff [of i ?items, OF _ this] that show ?thesis by (simp add: bs iv)
  qed
  show ?thesis
    using ok d [of 0] d [of 1] d [of 2] d [of 3] d [of 4] by (simp add: js_rem_def)
qed

subsection \<open>C3: the first rejection aborts\<close>

text \<open>
  C3. With the policy to continue disabled, if at least one submitted send is rejected and
  every send settles, \<^verbatim>\<open>execute\<close> raises one error: the \<^verbatim>\<open>NodeApiError\<close> made from the
  reason of the first rejected result in the order of the promises (every result before
  it is fulfilled), whatever the order in which the sends completed. The \<^verbatim>\<open>cert\<close> field of
  the reason is removed before it is raised. Nothing is returned, not even the records
  built for the sends that succeeded.
\<close>

theorem first_rejection_is_raised:
  assumes policy: "\<not> continueOnFail ctx"
    and rejected: "Rejected e \<in> set (sendMailPromises (submitted ctx items))"
    and settle: "{..<length (sendMailPromises (submitted ctx items))} \<subseteq> set arrival"
  shows "\<exists>reason pre post.
           sendMailPromises (submitted ctx items) = pre @ Rejected reason # post \<and>
           (\<forall>r\<in>set pre. \<exists>v. r = Fulfilled v) \<and>
           execute ctx arrival items = Some (Inl (NodeApiError (reason\<lparr>cert := None\<rparr>))) \<and>
           cert (reason\<lparr>cert := None\<rparr>) = None"
proof -
  let ?ps = "sendMailPromises (submitted ctx items)"
  from rejected have "first_rejected ?ps \<noteq> None" by (auto simp: first_rejected_None_iff)
  then obtain reason where fr: "first_rejected ?ps = Some reason" by auto
  from first_rejected_SomeD [OF fr] obtain pre post where
    split: "?ps = pre @ Rejected reason # post" "\<forall>r\<in>set pre. \<exists>v. r = Fulfilled v" by blast
  have "0 + length ?ps \<le> length items" by (simp add: length_promises_le)
  from output_loop_abort [OF policy fr this, of "[]"] obtain rd where
    "output_loop ctx (length items) 0 ?ps [] = (rd, Some (NodeApiError (reason\<lparr>cert := None\<rparr>)))"
    by blast
  then have "execute ctx arrival items = Some (Inl (NodeApiError (reason\<lparr>cert := None\<rparr>)))"
    by (simp add: execute_settled [OF settle])
  with split show ?thesis by (intro exI [of _ reason] exI [of _ pre] exI [of _ post]) simp
qed

text \<open>An instance: five items, the third send rejected with a certificate in its reason,
  the sends completing in reverse order.\<close>

theorem first_rejection_is_raised_witness:
  "\<not> continueOnFail (example_host False ''text'' no_options [] [2]) \<and>
   Rejected \<lparr>message = ''boom'', cert = Some ''PEM''\<rparr>
     \<in> set (sendMailPromises (submitted (example_host False ''text'' no_options [] [2])
                                 (replicate 5 plain_item))) \<and>
   {..<length (sendMailPromises (submitted (example_host False ''text'' no_options [] [2])
                                   (replicate 5 plain_item)))} \<subseteq> set [4, 3, 2, 1, 0] \<and>
   execute (example_host False ''text'' no_options [] [2]) [4, 3, 2, 1, 0]
     (replicate 5 plain_item) =
     Some (Inl (NodeApiError \<lparr>message = ''boom'', cert = None\<rparr>))"
proof -
  let ?H = "example_host False ''text'' no_options [] [2]"
  let ?items = "replicate 5 plain_item"
  let ?ps = "sendMailPromises (submitted ?H ?items)"
  have ps: "?ps = [Fulfilled ''250 OK'', Fulfilled ''250 OK'',
                   Rejected \<lparr>message = ''boom'', cert = Some ''PEM''\<rparr>,
                   Fulfilled ''250 OK'', Fulfilled ''250 OK'']"
    by code_simp
  have pol: "\<not> continueOnFail ?H" by (simp add: example_host_def)
  have rej: "Rejected \<lparr>message = ''boom'', cert = Some ''PEM''\<rparr> \<in> set ?ps"
    by (simp add: ps)
  have settle: "{..<length ?ps} \<subseteq> set [4, 3, 2, 1, 0]"
    by (auto simp: ps)
  from first_rejection_is_raised [OF pol rej settle] obtain reason pre post where
    split: "?ps = pre @ Rejected reason # post"
    and ex: "execute ?H [4, 3, 2, 1, 0] ?items =
               Some (Inl (NodeApiError (reason\<lparr>cert := None\<rparr>)))"
    by blast
  from split have "Rejected reason \<in> set ?ps" by simp
  then have "reason = \<lparr>message = ''boom'', cert = Some ''PEM''\<rparr>" by (simp add: ps)
  with ex have "execute ?H [4, 3, 2, 1, 0] ?items =
      Some (Inl (NodeApiError \<lparr>message = ''boom'', cert = None\<rparr>))" by simp
  with pol rej settle show ?thesis by blast
qed

subsection \<open>C4: rejections under the policy to continue\<close>

text \<open>
  C4 at a concrete input. Two items, the policy to continue; \<^verbatim>\<open>fromEmail\<close> of item 0 does
  not resolve, item 1 resolves and its send is rejected with the message \<open>boom\<close>. The only
  call of \<^verbatim>\<open>sendMail\<close> is the one for item 1 and the only promise is its rejection. The
  second loop pairs the error record of that rejection with index 0, not 1, then shifts
  \<^verbatim>\<open>undefined\<close>, and \<^verbatim>\<open>execute\<close> throws the \<^verbatim>\<open>TypeError\<close>: the rejected send of item 1
  yields no outcome.
\<close>

theorem rejection_after_skipped_item_is_lost:
  "execute (example_host True ''text'' no_options [0] [0]) [0] [plain_item, plain_item] =
     Some (Inl TypeError) \<and>
   map fst (sends (trace (submitted (example_host True ''text'' no_options [0] [0])
                            [plain_item, plain_item]))) = [1] \<and>
   sendMailPromises (submitted (example_host True ''text'' no_options [0] [0])
                       [plain_item, plain_item]) =
     [Rejected \<lparr>message = ''boom'', cert = Some ''PEM''\<rparr>] \<and>
   fst (output_loop (example_host True ''text'' no_options [0] [0]) 2 0
          (sendMailPromises (submitted (example_host True ''text'' no_options [0] [0])
                               [plain_item, plain_item])) []) =
     [\<lparr>json = ErrorJson ''boom'', pairedItem = 0\<rparr>]"
  by code_simp

subsection \<open>C5: attachments\<close>

text \<open>What the \<^verbatim>\<open>try\<close> block of item \<open>i\<close> has done about attachments when it hands a message
  to the transport.\<close>

lemma sent_message_attachments:
  assumes "SendMail i t m \<in> set (trace (submitted ctx items))"
    and "getOptions ctx i = Inr options"
  shows "if truthy (attachments options) \<and> binary (items ! i) \<noteq> None
         then \<exists>atts. mail_attachments m = Some atts \<and> atts \<noteq> [] \<and>
                list_all2 (\<lambda>p a. build_attachment ctx i p = Inr a)
                  (map trim (split_on CHR '','' (nullish (attachments options) []))) atts
         else mail_attachments m = None"
proof -
  from assms(1) obtain opts where
    pm: "prepare_message ctx i (items ! i) = Inr (t, m, opts)"
    by (auto simp: SendMail_in_trace)
  from prepare_message_InrD [OF pm] obtain m0 where
    go: "getOptions ctx i = Inr opts" and m0: "mail_attachments m0 = None"
    and add: "add_attachments ctx i (items ! i) opts m0 = Inr m"
    by (metis mail_options.select_convs(9))
  from go assms(2) have eq: "opts = options" by simp
  show ?thesis
  proof (cases "truthy (attachments options) \<and> binary (items ! i) \<noteq> None")
    case False
    with add_attachments_InrD [OF add] eq have "m = m0" by simp
    with m0 False show ?thesis by simp
  next
    case True
    with add_attachments_InrD [OF add] eq obtain atts where
      "m = m0\<lparr>mail_attachments := Some atts\<rparr>" "atts \<noteq> []"
      "list_all2 (\<lambda>p a. build_attachment ctx i p = Inr a)
         (map trim (split_on CHR '','' (nullish (attachments options) []))) atts"
      by auto
    with True show ?thesis by auto
  qed
qed

text \<open>
  C5, amended. For every item \<open>i\<close> whose options resolve.
  \<^item> If the options carry a non-empty attachments spec and the item carries binary data,
    the spec is split on commas and each name is trimmed. A message handed to the
    transport for the item then has an \<^verbatim>\<open>attachments\<close> field with one attachment for each
    name, in that order: its \<^verbatim>\<open>cid\<close> is the name, its \<^verbatim>\<open>filename\<close> is the file name of the
    binary property of that name, or \<open>unknown\<close> when that is absent or empty, and its
    \<^verbatim>\<open>content\<close> is the buffer of that property.
  \<^item> If one of the names does not resolve (\<^verbatim>\<open>assertBinaryData\<close> or
    \<^verbatim>\<open>getBinaryDataBuffer\<close> throws for it), no message at all is handed to the transport
    for the item.
  \<^item> If the options carry no spec or an empty one, or the item carries no binary data, a
    message handed to the transport for the item has no \<^verbatim>\<open>attachments\<close> field.
  \<^item> The \<^verbatim>\<open>attachments\<close> field of a message is never an empty list.
\<close>

theorem attachments_of_item:
  assumes "i < length items" and "getOptions ctx i = Inr options"
  shows "(\<forall>transporter mailOptions.
            SendMail i transporter mailOptions \<in> set (trace (submitted ctx items)) \<longrightarrow>
            mail_attachments mailOptions \<noteq> Some [] \<and>
            (attachments options = None \<or> attachments options = Some [] \<or>
               binary (items ! i) = None \<longrightarrow>
             mail_attachments mailOptions = None) \<and>
            (\<forall>spec. attachments options = Some spec \<and> spec \<noteq> [] \<and> binary (items ! i) \<noteq> None \<longrightarrow>
               (\<exists>atts. mail_attachments mailOptions = Some atts \<and>
                  list_all2
                    (\<lambda>propertyName a.
                       cid a = propertyName \<and>
                       (\<exists>binaryData. assertBinaryData ctx i propertyName = Inr binaryData \<and>
                          filename a = (case fileName binaryData of
                                          None \<Rightarrow> ''unknown''
                                        | Some f \<Rightarrow> if f = [] then ''unknown'' else f)) \<and>
                       getBinaryDataBuffer ctx i propertyName = Inr (content a))
                    (map trim (split_on CHR '','' spec)) atts))) \<and>
         (\<forall>spec propertyName e.
            attachments options = Some spec \<and> spec \<noteq> [] \<and> binary (items ! i) \<noteq> None \<and>
            propertyName \<in> set (map trim (split_on CHR '','' spec)) \<and>
            (assertBinaryData ctx i propertyName = Inl e \<or>
             getBinaryDataBuffer ctx i propertyName = Inl e) \<longrightarrow>
            (\<forall>transporter mailOptions.
               SendMail i transporter mailOptions \<notin> set (trace (submitted ctx items))))"
proof -
  let ?R = "\<lambda>propertyName a.
              cid a = propertyName \<and>
              (\<exists>binaryData. assertBinaryData ctx i propertyName = Inr binaryData \<and>
                 filename a = (case fileName binaryData of
                                 None \<Rightarrow> ''unknown''
                               | Some f \<Rightarrow> if f = [] then ''unknown'' else f)) \<and>
              getBinaryDataBuffer ctx i propertyName = Inr (content a)"
  have s3: "\<exists>atts. mail_attachments m = Some atts \<and>
                 list_all2 ?R (map trim (split_on CHR '','' spec)) atts"
    if mem: "SendMail i t m \<in> set (trace (submitted ctx items))"
      and spec: "attachments options = Some spec \<and> spec \<noteq> [] \<and> binary (items ! i) \<noteq> None"
    for t m spec
  proof -
    from spec have "truthy (attachments options) \<and> binary (items ! i) \<noteq> None"
      by (simp add: truthy_def)
    with sent_message_attachments [OF mem assms(2)] spec obtain atts where
      a: "mail_attachments m = Some atts"
      and l: "list_all2 (\<lambda>p a. build_attachment ctx i p = Inr a)
                (map trim (split_on CHR '','' spec)) atts"
      by (auto simp: nullish_def)
    have "list_all2 ?R (map trim (split_on CHR '','' spec)) atts"
      using l by (rule list_all2_mono) (rule build_attachment_InrD)
    with a show ?thesis by (intro exI [of _ atts]) simp
  qed
  have s2: "mail_attachments m = None"
    if mem: "SendMail i t m \<in> set (trace (submitted ctx items))"
      and no: "attachments options = None \<or> attachments options = Some [] \<or>
               binary (items ! i) = None"
    for t m
  proof -
    from no have "\<not> (truthy (attachments options) \<and> binary (items ! i) \<noteq> None)"
      by (auto simp: truthy_def)
    with sent_message_attachments [OF mem assms(2)] show ?thesis by simp
  qed
  have s1: "mail_attachments m \<noteq> Some []"
    if mem: "SendMail i t m \<in> set (trace (submitted ctx items))" for t m
    using sent_message_attachments [OF mem assms(2)]
    by (cases "truthy (attachments options) \<and> binary (items ! i) \<noteq> None") auto
  have unsent: "SendMail i t m \<notin> set (trace (submitted ctx items))"
    if fail: "attachments options = Some spec \<and> spec \<noteq> [] \<and> binary (items ! i) \<noteq> None \<and>
              p \<in> set (map trim (split_on CHR '','' spec)) \<and>
              (assertBinaryData ctx i p = Inl e \<or> getBinaryDataBuffer ctx i p = Inl e)"
    for spec p e t m
  proof
    assume mem: "SendMail i t m \<in> set (trace (submitted ctx items))"
    from fail have spec: "attachments options = Some spec \<and> spec \<noteq> [] \<and>
        binary (items ! i) \<noteq> None" by simp
    from spec have "truthy (attachments options) \<and> binary (items ! i) \<noteq> None"
      by (simp add: truthy_def)
    with sent_message_attachments [OF mem assms(2)] spec obtain atts where
      l: "list_all2 (\<lambda>p a. build_attachment ctx i p = Inr a)
            (map trim (split_on CHR '','' spec)) atts"
      by (auto simp: nullish_def)
    from fail have "p \<in> set (map trim (split_on CHR '','' spec))" by simp
    then obtain k where k: "k < length (map trim (split_on CHR '','' spec))"
      "map trim (split_on CHR '','' spec) ! k = p"
      unfolding in_set_conv_nth by blast
    from list_all2_nthD [OF l k(1)] k(2) have "build_attachment ctx i p = Inr (atts ! k)"
      by simp
    from build_attachment_InrD [OF this]
    have "(\<exists>binaryData. assertBinaryData ctx i p = Inr binaryData) \<and>
          getBinaryDataBuffer ctx i p = Inr (content (atts ! k))" by auto
    with fail show False by auto
  qed
  show ?thesis
    by (intro conjI allI impI) (rule s1 s2 s3 unsent; assumption)+
qed

text \<open>The example of the claim: the spec \<open>a, b\<close> on an item with the binary properties \<open>a\<close>
  (file name \<open>a.txt\<close>) and \<open>b\<close> (no file name) gives two attachments, with the content
  ids \<open>a\<close> and \<open>b\<close>.\<close>

theorem attachments_of_item_witness:
  "0 < length [binary_item] \<and>
   getOptions (example_host True ''html'' (no_options\<lparr>attachments := Some ''a, b''\<rparr>) [] []) 0 =
     Inr (no_options\<lparr>attachments := Some ''a, b''\<rparr>) \<and>
   (\<exists>transporter mailOptions atts.
      SendMail 0 transporter mailOptions
        \<in> set (trace (submitted
                        (example_host True ''html'' (no_options\<lparr>attachments := Some ''a, b''\<rparr>) [] [])
                        [binary_item])) \<and>
      mail_attachments mailOptions = Some atts \<and>
      map cid atts = [''a'', ''b''] \<and> map filename atts = [''a.txt'', ''unknown''])"
proof -
  let ?opts = "no_options\<lparr>attachments := Some ''a, b''\<rparr>"
  let ?H = "example_host True ''html'' ?opts [] []"
  have "length (trace (submitted ?H [binary_item])) = 1 \<and>
        map fst (sends (trace (submitted ?H [binary_item]))) = [0]" by code_simp
  then obtain t m where tr: "trace (submitted ?H [binary_item]) = [SendMail 0 t m]"
    by (cases "trace (submitted ?H [binary_item])"; cases "hd (trace (submitted ?H [binary_item]))")
      auto
  then have mem: "SendMail 0 t m \<in> set (trace (submitted ?H [binary_item]))" by simp
  have i: "0 < length [binary_item]" by simp
  have go: "getOptions ?H 0 = Inr ?opts" by (simp add: example_host_def)
  have spec: "attachments ?opts = Some ''a, b'' \<and> ''a, b'' \<noteq> [] \<and>
      binary ([binary_item] ! 0) \<noteq> None"
    by (simp add: binary_item_def)
  have names: "map trim (split_on CHR '','' ''a, b'') = [''a'', ''b'']"
    by code_simp
  have fa: "assertBinaryData ?H 0 ''a'' =
              Inr \<lparr>fileName = Some ''a.txt'', mimeType = ''text/plain''\<rparr>"
    and fb: "assertBinaryData ?H 0 ''b'' = Inr \<lparr>fileName = None, mimeType = ''image/png''\<rparr>"
    by (simp_all add: example_host_def binary_item_def nullish_def)
  from attachments_of_item [OF i go] mem spec obtain atts where
    a: "mail_attachments m = Some atts"
    and l: "list_all2
             (\<lambda>propertyName a.
                cid a = propertyName \<and>
                (\<exists>binaryData. assertBinaryData ?H 0 propertyName = Inr binaryData \<and>
                   filename a = (case fileName binaryData of
                                   None \<Rightarrow> ''unknown''
                                 | Some f \<Rightarrow> if f = [] then ''unknown'' else f)) \<and>
                getBinaryDataBuffer ?H 0 propertyName = Inr (content a))
             (map trim (split_on CHR '','' ''a, b'')) atts"
    by blast
  from l fa fb have "map cid atts = [''a'', ''b''] \<and> map filename atts = [''a.txt'', ''unknown'']"
    unfolding names by (auto simp: list_all2_Cons1)
  with mem a have "\<exists>transporter mailOptions atts.
      SendMail 0 transporter mailOptions \<in> set (trace (submitted ?H [binary_item])) \<and>
      mail_attachments mailOptions = Some atts \<and>
      map cid atts = [''a'', ''b''] \<and> map filename atts = [''a.txt'', ''unknown'']"
    by (intro exI [of _ t] exI [of _ m] exI [of _ atts]) simp
  with i go show ?thesis by simp
qed

text \<open>
  C5 as stated fails on its own case of an attachments spec without matching binary data.
  The item carries the binary properties \<open>a\<close> and \<open>b\<close>, the spec is \<open>a, c\<close>:
  \<^verbatim>\<open>assertBinaryData\<close> throws for \<open>c\<close> at line 273, and no message is handed to the transport,
  rather than a message without an \<^verbatim>\<open>attachments\<close> field. (The exception is then swallowed
  and \<^verbatim>\<open>execute\<close> ends with the \<^verbatim>\<open>TypeError\<close>.)
\<close>

theorem missing_binary_property_counterexample:
  "binary binary_item \<noteq> None \<and>
   map trim (split_on CHR '','' ''a, c'') = [''a'', ''c''] \<and>
   assertBinaryData (example_host True ''html'' (no_options\<lparr>attachments := Some ''a, c''\<rparr>) [] [])
     0 ''c'' = Inl \<lparr>message = ''no binary field'', cert = None\<rparr> \<and>
   trace (submitted (example_host True ''html'' (no_options\<lparr>attachments := Some ''a, c''\<rparr>) [] [])
            [binary_item]) = [] \<and>
   execute (example_host True ''html'' (no_options\<lparr>attachments := Some ''a, c''\<rparr>) [] []) []
     [binary_item] = Some (Inl TypeError)"
  by code_simp

subsection \<open>C6: a skipped item\<close>

text \<open>
  C6, amended. For every input in which the \<^verbatim>\<open>try\<close> block of at least one item \<open>s\<close>
  throws, and every submitted send settles: fewer promises are submitted than there are
  items, and \<^verbatim>\<open>execute\<close> raises and returns no outcome at all, also under the policy to
  continue. The error is the \<^verbatim>\<open>TypeError\<close> of reading \<^verbatim>\<open>status\<close> of \<^verbatim>\<open>undefined\<close>, the
  second loop having shifted past the end of the results, whenever the policy is to
  continue or no submitted send is rejected; under the policy to abort, with a rejected
  send, it is the \<^verbatim>\<open>NodeApiError\<close> of the first rejected result, raised before the loop
  gets that far. Each record put into \<^verbatim>\<open>returnData\<close> before the throw is built from the
  \<open>k\<close>-th promise and paired with \<open>k\<close>, while the send of that promise was made for the
  item \<open>origin\<close>, with \<open>k \<le> origin\<close>, and \<open>k < origin\<close> for every item positioned after the
  skipped one.
\<close>

theorem skipped_item_makes_execute_throw:
  assumes s: "s < length items"
    and fails: "prepare_message ctx s (items ! s) = Inl e"
    and settle: "{..<length (sendMailPromises (submitted ctx items))} \<subseteq> set arrival"
  shows "length (sendMailPromises (submitted ctx items)) < length items \<and>
         execute ctx arrival items =
           Some (Inl (case first_rejected (sendMailPromises (submitted ctx items)) of
                        None \<Rightarrow> TypeError
                      | Some reason \<Rightarrow>
                          if continueOnFail ctx then TypeError
                          else NodeApiError (reason\<lparr>cert := None\<rparr>))) \<and>
         (\<exists>n\<le>length (sendMailPromises (submitted ctx items)).
            fst (output_loop ctx (length items) 0 (sendMailPromises (submitted ctx items)) []) =
              map (\<lambda>k. outcome_of k (sendMailPromises (submitted ctx items) ! k)) [0..<n] \<and>
            (\<forall>k<n. \<exists>origin transporter mailOptions.
               sends (trace (submitted ctx items)) ! k = (origin, transporter, mailOptions) \<and>
               sendMailPromises (submitted ctx items) ! k = sendMail ctx k transporter mailOptions \<and>
               k \<le> origin \<and> (s < origin \<longrightarrow> k < origin)))"
proof -
  let ?ps = "sendMailPromises (submitted ctx items)"
  let ?n = "length items"
  have nok: "\<not> item_ok ctx items s" using fails by (simp add: item_ok_def)
  have "s \<in> set [0..<?n]" using s by simp
  then have "length (filter (item_ok ctx items) [0..<?n]) < length [0..<?n]"
    using nok by (rule length_filter_less)
  then have short: "length ?ps < ?n" by (simp add: length_promises)
  have ex: "execute ctx arrival items =
           Some (Inl (case first_rejected ?ps of
                        None \<Rightarrow> TypeError
                      | Some reason \<Rightarrow>
                          if continueOnFail ctx then TypeError
                          else NodeApiError (reason\<lparr>cert := None\<rparr>)))"
  proof (cases "continueOnFail ctx \<or> first_rejected ?ps = None")
    case True
    then have "output_loop ctx ?n 0 ?ps [] = ([] @ paired 0 ?ps, Some TypeError)"
      using short by (intro output_loop_short) simp_all
    with True show ?thesis
      by (auto simp: execute_settled [OF settle] split: option.splits)
  next
    case False
    then obtain reason where fr: "first_rejected ?ps = Some reason" and pol: "\<not> continueOnFail ctx"
      by auto
    have "0 + length ?ps \<le> ?n" using short by simp
    from output_loop_abort [OF pol fr this, of "[]"] obtain rd where
      "output_loop ctx ?n 0 ?ps [] = (rd, Some (NodeApiError (reason\<lparr>cert := None\<rparr>)))"
      by blast
    with fr pol show ?thesis by (simp add: execute_settled [OF settle])
  qed
  from output_loop_fst [of ?ps ctx ?n 0 "[]"] obtain n where n: "n \<le> length ?ps"
    and rd: "fst (output_loop ctx ?n 0 ?ps []) = paired 0 (take n ?ps)" by auto
  have rd': "fst (output_loop ctx ?n 0 ?ps []) = map (\<lambda>k. outcome_of k (?ps ! k)) [0..<n]"
    using rd n by (simp add: paired_take_eq_map)
  have each: "\<exists>origin t m. sends (trace (submitted ctx items)) ! k = (origin, t, m) \<and>
               ?ps ! k = sendMail ctx k t m \<and> k \<le> origin \<and> (s < origin \<longrightarrow> k < origin)"
    if "k < n" for k
  proof -
    from that n have k: "k < length ?ps" by simp
    then have kf: "k < length (filter (item_ok ctx items) [0..<?n])"
      by (simp add: length_promises)
    from nth_promises [OF k] obtain origin t m where
      o: "sends (trace (submitted ctx items)) ! k = (origin, t, m)"
      "origin = filter (item_ok ctx items) [0..<?n] ! k"
      "?ps ! k = sendMail ctx k t m" by blast
    have "k \<le> origin" using filter_upt_nth_ge(1) [OF kf] o(2) by simp
    moreover have "s < origin \<longrightarrow> k < origin"
      using filter_upt_nth_ge(2) [OF kf, of s] nok o(2) by simp
    ultimately show ?thesis using o by blast
  qed
  from short ex n rd' each show ?thesis by blast
qed

text \<open>An instance: three items under the policy to continue, \<^verbatim>\<open>fromEmail\<close> of item 1 does
  not resolve, both sends are fulfilled. Two promises for three items, and the
  \<^verbatim>\<open>TypeError\<close>.\<close>

theorem skipped_item_makes_execute_throw_witness:
  "1 < length [plain_item, plain_item, plain_item] \<and>
   prepare_message (example_host True ''text'' no_options [1] []) 1
       ([plain_item, plain_item, plain_item] ! 1) =
     Inl \<lparr>message = ''Could not get parameter'', cert = None\<rparr> \<and>
   {..<length (sendMailPromises (submitted (example_host True ''text'' no_options [1] [])
                                   [plain_item, plain_item, plain_item]))} \<subseteq> set [1, 0] \<and>
   length (sendMailPromises (submitted (example_host True ''text'' no_options [1] [])
                               [plain_item, plain_item, plain_item])) < 3 \<and>
   execute (example_host True ''text'' no_options [1] []) [1, 0]
     [plain_item, plain_item, plain_item] = Some (Inl TypeError)"
proof -
  let ?H = "example_host True ''text'' no_options [1] []"
  let ?items = "[plain_item, plain_item, plain_item]"
  let ?ps = "sendMailPromises (submitted ?H ?items)"
  have ps: "?ps = [Fulfilled ''250 OK'', Fulfilled ''250 OK'']" by code_simp
  have s: "1 < length ?items" by simp
  have f: "prepare_message ?H 1 (?items ! 1) =
             Inl \<lparr>message = ''Could not get parameter'', cert = None\<rparr>"
    by code_simp
  have settle: "{..<length ?ps} \<subseteq> set [1, 0]" unfolding ps by (auto simp: less_Suc_eq)
  from skipped_item_makes_execute_throw [OF s f settle]
  have "length ?ps < length ?items"
    and "execute ?H [1, 0] ?items =
           Some (Inl (case first_rejected ?ps of
                        None \<Rightarrow> TypeError
                      | Some reason \<Rightarrow>
                          if continueOnFail ?H then TypeError
                          else NodeApiError (reason\<lparr>cert := None\<rparr>)))"
    by blast+
  then have "length ?ps < 3" "execute ?H [1, 0] ?items = Some (Inl TypeError)"
    unfolding ps by simp_all
  with f settle show ?thesis by simp
qed

text \<open>
  C6 as stated fails where a rejection aborts first. Two items under the policy to abort,
  \<^verbatim>\<open>fromEmail\<close> of item 0 does not resolve, the send of item 1 is rejected: the second loop
  throws the \<^verbatim>\<open>NodeApiError\<close> in its first iteration, with \<^verbatim>\<open>returnData\<close> empty; it never
  shifts past the end of the results and never reads \<^verbatim>\<open>status\<close> of \<^verbatim>\<open>undefined\<close>.
\<close>

theorem skipped_item_rejection_counterexample:
  "prepare_message (example_host False ''text'' no_options [0] [0]) 0 plain_item =
     Inl \<lparr>message = ''Could not get parameter'', cert = None\<rparr> \<and>
   output_loop (example_host False ''text'' no_options [0] [0]) 2 0
     (sendMailPromises (submitted (example_host False ''text'' no_options [0] [0])
                          [plain_item, plain_item])) [] =
     ([], Some (NodeApiError \<lparr>message = ''boom'', cert = None\<rparr>)) \<and>
   execute (example_host False ''text'' no_options [0] [0]) [0] [plain_item, plain_item] =
     Some (Inl (NodeApiError \<lparr>message = ''boom'', cert = None\<rparr>))"
  by code_simp

subsection \<open>C7: the defaults of the batching option\<close>

text \<open>
  C7, amended. When the batching option is unset on an item, the \<open>batchSize\<close> used for
  pacing that item is 1, and the batch interval is 1000 milliseconds: the item, when it is
  submitted, is preceded by a sleep of 1000 milliseconds unless it is the first.
\<close>

theorem unset_batching_defaults:
  assumes "i < length items"
    and "prepare_message ctx i (items ! i) = Inr (transporter, mailOptions, options)"
    and "batching options = None"
  shows "effective_batchSize options = 1 \<and> effective_batchInterval options = 1000 \<and>
         delay_before i (trace (submitted ctx items)) = (if 0 < i then Some 1000 else None)"
proof -
  have bs: "effective_batchSize options = 1" and iv: "effective_batchInterval options = 1000"
    using assms(3)
    by (simp_all add: effective_batchSize_def effective_batchInterval_def nullish_def)
  have "pacing_due i options = (0 < i)"
    by (simp add: pacing_due_def bs iv js_rem_def)
  then have "delay_before i (trace (submitted ctx items)) = (if 0 < i then Some 1000 else None)"
    using assms(1,2) by (simp add: delay_before_trace item_delay_eq iv)
  with bs iv show ?thesis by simp
qed

text \<open>An instance: three items without options; the third is preceded by a sleep of 1000
  milliseconds.\<close>

theorem unset_batching_defaults_witness:
  "2 < length (replicate 3 plain_item) \<and>
   (\<exists>t m. prepare_message (example_host True ''text'' no_options [] []) 2
             (replicate 3 plain_item ! 2) = Inr (t, m, no_options)) \<and>
   batching no_options = None \<and>
   effective_batchSize no_options = 1 \<and> effective_batchInterval no_options = 1000 \<and>
   delay_before 2 (trace (submitted (example_host True ''text'' no_options [] [])
                            (replicate 3 plain_item))) = Some 1000"
proof -
  let ?H = "example_host True ''text'' no_options [] []"
  let ?items = "replicate 3 plain_item"
  have i: "2 < length ?items" by simp
  obtain t m where pm: "prepare_message ?H 2 (?items ! 2) = Inr (t, m, no_options)"
    by (simp add: prepare_message_def example_host_def add_attachments_def truthy_def
        no_options_def plain_item_def)
  have b: "batching no_options = None" by (simp add: no_options_def)
  from unset_batching_defaults [OF i pm b] i pm b show ?thesis by auto
qed

text \<open>C7 as stated fails: with the batching option unset the \<open>batchSize\<close> used is 1, not
  50. It shows in the trace: of three items without options the second is preceded by a
  sleep, which a \<open>batchSize\<close> of 50 would not make due.\<close>

theorem unset_batchSize_counterexample:
  "batching no_options = None \<and> effective_batchSize no_options = 1 \<and>
   effective_batchSize no_options \<noteq> 50 \<and>
   delay_before 1 (trace (submitted (example_host True ''text'' no_options [] [])
                            (replicate 3 plain_item))) = Some 1000 \<and>
   pacing_due 1 (batch_of 50 1000) = False"
  by code_simp

subsection \<open>C8: the transport configuration\<close>




subsection \<open>C9: a batch size of zero\<close>

text \<open>
  C9. For every submitted item whose batching option is set with a \<open>batchSize\<close> of 0:
  \<^verbatim>\<open>itemIndex % 0\<close> is \<^verbatim>\<open>NaN\<close>, which never equals 0, and no pacing sleep precedes the
  submission of the item, whatever its index. A \<open>batchSize\<close> of 0 is thus not treated as
  1, which the comment above line 287 and the description of the parameter announce:
  with a \<open>batchSize\<close> of 1 and the same interval, a sleep is due before every item but the
  first as soon as the interval is positive.
\<close>

theorem batchSize_zero_never_paces:
  assumes "i < length items"
    and "prepare_message ctx i (items ! i) = Inr (transporter, mailOptions, options)"
    and "Option.bind (Option.bind (batching options) batch) batchSize = Some 0"
  shows "effective_batchSize options = 0 \<and>
         js_rem (int i) (effective_batchSize options) = None \<and>
         delay_before i (trace (submitted ctx items)) = None \<and>
         pacing_due i (batch_of 1 (effective_batchInterval options)) =
           (0 < i \<and> 0 < effective_batchInterval options)"
proof -
  have bs: "effective_batchSize options = 0"
    using assms(3) by (simp add: effective_batchSize_def nullish_def)
  then have r: "js_rem (int i) (effective_batchSize options) = None"
    by (simp add: js_rem_def)
  then have "\<not> pacing_due i options" by (simp add: pacing_due_def)
  then have d: "delay_before i (trace (submitted ctx items)) = None"
    using assms(1,2) by (simp add: delay_before_trace item_delay_eq)
  have "pacing_due i (batch_of 1 (effective_batchInterval options)) =
           (0 < i \<and> 0 < effective_batchInterval options)"
    by (simp add: pacing_due_def batch_of_def no_options_def effective_batchSize_def
        effective_batchInterval_def nullish_def js_rem_def)
  with bs r d show ?thesis by simp
qed

text \<open>An instance: three items with \<open>batchSize = 0\<close> and an interval of 1000; no sleep
  before the third, where a \<open>batchSize\<close> of 1 would make one due.\<close>

theorem batchSize_zero_never_paces_witness:
  "2 < length (replicate 3 plain_item) \<and>
   (\<exists>t m. prepare_message (example_host True ''text'' (batch_of 0 1000) [] []) 2
             (replicate 3 plain_item ! 2) = Inr (t, m, batch_of 0 1000)) \<and>
   Option.bind (Option.bind (batching (batch_of 0 1000)) batch) batchSize = Some 0 \<and>
   delay_before 2 (trace (submitted (example_host True ''text'' (batch_of 0 1000) [] [])
                            (replicate 3 plain_item))) = None \<and>
   pacing_due 2 (batch_of 1 1000)"
proof -
  let ?H = "example_host True ''text'' (batch_of 0 1000) [] []"
  let ?items = "replicate 3 plain_item"
  have i: "2 < length ?items" by simp
  obtain t m where pm: "prepare_message ?H 2 (?items ! 2) = Inr (t, m, batch_of 0 1000)"
    by (simp add: prepare_message_def example_host_def add_attachments_def truthy_def
        no_options_def plain_item_def batch_of_def)
  have b: "Option.bind (Option.bind (batching (batch_of 0 1000)) batch) batchSize = Some 0"
    by (simp add: batch_of_def)
  have iv: "effective_batchInterval (batch_of 0 1000) = 1000"
    by (simp add: effective_batchInterval_def batch_of_def nullish_def)
  from batchSize_zero_never_paces [OF i pm b] i pm b show ?thesis
    by (auto simp: iv)
qed

subsection \<open>C10: the body of the message\<close>

text \<open>
  C10, amended. For every message handed to the transport, for item \<open>i\<close> say: when
  \<^verbatim>\<open>emailFormat\<close> is \<open>text\<close>, the \<^verbatim>\<open>text\<close> field is set, from the \<^verbatim>\<open>text\<close> parameter, and the
  \<^verbatim>\<open>html\<close> field is not; when it is \<open>html\<close>, the \<^verbatim>\<open>html\<close> field is set, from the \<^verbatim>\<open>html\<close>
  parameter, and the \<^verbatim>\<open>text\<close> field is not; for every other value of \<^verbatim>\<open>emailFormat\<close>
  neither field is set. The two fields are never both set.
\<close>

theorem body_of_sent_message:
  assumes "SendMail i transporter mailOptions \<in> set (trace (submitted ctx items))"
  shows "\<exists>emailFormat.
           getNodeParameter ctx ''emailFormat'' i None = Inr emailFormat \<and>
           (if emailFormat = ''text''
            then (\<exists>t. getNodeParameter ctx ''text'' i (Some []) = Inr t \<and>
                      mail_text mailOptions = Some t) \<and> mail_html mailOptions = None
            else if emailFormat = ''html''
            then (\<exists>h. getNodeParameter ctx ''html'' i (Some []) = Inr h \<and>
                      mail_html mailOptions = Some h) \<and> mail_text mailOptions = None
            else mail_text mailOptions = None \<and> mail_html mailOptions = None) \<and>
           \<not> (mail_text mailOptions \<noteq> None \<and> mail_html mailOptions \<noteq> None)"
proof -
  from assms obtain options where i: "i < length items"
    and pm: "prepare_message ctx i (items ! i) = Inr (transporter, mailOptions, options)"
    by (auto simp: SendMail_in_trace)
  from prepare_message_InrD [OF pm]
  obtain fromEmail toEmail subject emailFormat text_field html_field
    where fmt: "getNodeParameter ctx ''emailFormat'' i None = Inr emailFormat"
      and tf: "if emailFormat = ''text''
            then \<exists>x. getNodeParameter ctx ''text'' i (Some []) = Inr x \<and> text_field = Some x
            else text_field = None"
      and hf: "if emailFormat = ''html''
            then \<exists>x. getNodeParameter ctx ''html'' i (Some []) = Inr x \<and> html_field = Some x
            else html_field = None"
      and add: "add_attachments ctx i (items ! i) options
             \<lparr>mail_from = fromEmail, mail_to = toEmail, mail_cc = ccEmail options,
              mail_bcc = bccEmail options, mail_subject = subject,
              mail_replyTo = replyTo options, mail_text = text_field,
              mail_html = html_field, mail_attachments = None\<rparr> = Inr mailOptions"
    by blast
  have "mail_text mailOptions = text_field \<and> mail_html mailOptions = html_field"
    using add_attachments_InrD [OF add] by (auto split: if_splits)
  with fmt tf hf show ?thesis
    by (intro exI [of _ emailFormat]) (auto split: if_splits)
qed

text \<open>An instance: one item with \<^verbatim>\<open>emailFormat\<close> \<open>html\<close>; the message has the \<^verbatim>\<open>html\<close>
  field and no \<^verbatim>\<open>text\<close> field.\<close>

theorem body_of_sent_message_witness:
  "\<exists>transporter mailOptions.
     SendMail 0 transporter mailOptions
       \<in> set (trace (submitted (example_host True ''html'' no_options [] []) [plain_item])) \<and>
     mail_html mailOptions = Some ''html'' \<and> mail_text mailOptions = None"
proof -
  let ?H = "example_host True ''html'' no_options [] []"
  have "length (trace (submitted ?H [plain_item])) = 1 \<and>
        map fst (sends (trace (submitted ?H [plain_item]))) = [0]" by code_simp
  then obtain t m where tr: "trace (submitted ?H [plain_item]) = [SendMail 0 t m]"
    by (cases "trace (submitted ?H [plain_item])"; cases "hd (trace (submitted ?H [plain_item]))")
      auto
  then have mem: "SendMail 0 t m \<in> set (trace (submitted ?H [plain_item]))" by simp
  have fmt: "getNodeParameter ?H ''emailFormat'' 0 None = Inr ''html''"
    and h: "getNodeParameter ?H ''html'' 0 (Some []) = Inr ''html''"
    by (simp_all add: example_host_def)
  from body_of_sent_message [OF mem] fmt h
  have "mail_html m = Some ''html'' \<and> mail_text m = None" by auto
  with mem show ?thesis by blast
qed

text \<open>
  C10 as stated fails: the two tests of lines 256 and 260 are independent, and
  \<^verbatim>\<open>emailFormat\<close> is an unchecked string. With the value \<open>Text\<close> the message that is handed
  to the transport has neither a \<^verbatim>\<open>text\<close> nor an \<^verbatim>\<open>html\<close> field, and the item is reported
  as sent.
\<close>

theorem message_without_body_counterexample:
  "getNodeParameter (example_host True ''Text'' no_options [] []) ''emailFormat'' 0 None =
     Inr ''Text'' \<and>
   map (\<lambda>(i, transporter, mailOptions). (i, mail_text mailOptions, mail_html mailOptions))
     (sends (trace (submitted (example_host True ''Text'' no_options [] []) [plain_item]))) =
     [(0, None, None)] \<and>
   execute (example_host True ''Text'' no_options [] []) [0] [plain_item] =
     Some (Inr [[\<lparr>json = ResponseJson ''250 OK'', pairedItem = 0\<rparr>]])"
  by code_simp

end
